theory Spec2Isabelle
  imports Main
begin

section \<open>Calendar\<close>

text \<open>
  A \<open>datetime\<close> at midnight is modelled by its proleptic Gregorian ordinal, the value of
  Python's \<open>toordinal()\<close>: day 1 is 0001-01-01.  Adding \<open>timedelta(days=1)\<close> adds one,
  \<open>(a - b).days\<close> is the difference, and comparison is comparison of ordinals.
\<close>

type_synonym datetime = int

definition is_leap :: "int \<Rightarrow> bool" where
  "is_leap y = (y mod 4 = 0 \<and> (y mod 100 \<noteq> 0 \<or> y mod 400 = 0))"

definition days_before_year :: "int \<Rightarrow> int" where
  "days_before_year year = (let y = year - 1 in y * 365 + y div 4 - y div 100 + y div 400)"

definition DAYS_IN_MONTH :: "int list" where
  "DAYS_IN_MONTH = [-1, 31, 28, 31, 30, 31, 30, 31, 31, 30, 31, 30, 31]"

definition DAYS_BEFORE_MONTH :: "int list" where
  "DAYS_BEFORE_MONTH = [-1, 0, 31, 59, 90, 120, 151, 181, 212, 243, 273, 304, 334]"

definition days_before_month :: "int \<Rightarrow> int \<Rightarrow> int" where
  "days_before_month year month =
     DAYS_BEFORE_MONTH ! nat month + (if month > 2 \<and> is_leap year then 1 else 0)"

definition ymd2ord :: "int \<Rightarrow> int \<Rightarrow> int \<Rightarrow> datetime" where
  "ymd2ord year month day = days_before_year year + days_before_month year month + day"

text \<open>Python's \<open>_ord2ymd\<close>; only the month is read by the generator.\<close>

definition ord2ymd :: "datetime \<Rightarrow> int \<times> int \<times> int" where
  "ord2ymd ordinal =
     (let n0 = ordinal - 1;
          n400 = n0 div 146097; n1 = n0 mod 146097;
          n100 = n1 div 36524; n2 = n1 mod 36524;
          n4 = n2 div 1461; n3 = n2 mod 1461;
          n1y = n3 div 365; n = n3 mod 365;
          year = n400 * 400 + 1 + n100 * 100 + n4 * 4 + n1y
      in if n1y = 4 \<or> n100 = 4 then (year - 1, 12, 31)
         else
           let leapyear = (n1y = 3 \<and> (n4 \<noteq> 24 \<or> n100 = 3));
               month = (n + 50) div 32;
               preceding = DAYS_BEFORE_MONTH ! nat month
                             + (if month > 2 \<and> leapyear then 1 else 0)
           in if preceding > n
              then let month' = month - 1;
                       preceding' = preceding
                          - (DAYS_IN_MONTH ! nat month'
                               + (if month' = 2 \<and> leapyear then 1 else 0))
                   in (year, month', n - preceding' + 1)
              else (year, month, n - preceding + 1))"

definition month_of :: "datetime \<Rightarrow> int" where
  "month_of d = fst (snd (ord2ymd d))"

text \<open>\<open>weekday()\<close>: 0 is Monday, 1 Tuesday, 2 Wednesday, 3 Thursday.\<close>

definition weekday :: "datetime \<Rightarrow> int" where
  "weekday d = (d + 6) mod 7"

subsection \<open>The CSV profile: \<open>generate_auction_data.py\<close>\<close>

definition start_date :: datetime where
  "start_date = ymd2ord 2025 8 1"

definition end_date :: datetime where
  "end_date = ymd2ord 2025 12 31"

definition holidays :: "datetime list" where
  "holidays = [ymd2ord 2025 11 27, ymd2ord 2025 12 25]"

text \<open>The \<open>while current <= end_date\<close> loop of \<open>generate_auction_dates\<close>.\<close>

function auction_dates_loop ::
  "datetime \<Rightarrow> datetime \<Rightarrow> datetime list \<Rightarrow> datetime list \<Rightarrow> datetime list" where
  "auction_dates_loop current end_d hol dates =
     (if current \<le> end_d
      then auction_dates_loop (current + 1) end_d hol
             (if weekday current \<in> set [1, 2, 3]
              then (if current \<notin> set hol then dates @ [current] else dates)
              else dates)
      else dates)"
  by pat_completeness auto
termination
  by (relation "measure (\<lambda>(current, end_d, hol, dates). nat (end_d + 1 - current))") auto

declare auction_dates_loop.simps [simp del]

definition generate_auction_dates :: "datetime list" where
  "generate_auction_dates = auction_dates_loop start_date end_date holidays []"

definition get_week_number :: "datetime \<Rightarrow> int" where
  "get_week_number date = (let start = ymd2ord 2025 8 1; delta = date - start
                           in delta div 7 + 1)"

subsection \<open>The database profile: \<open>generate_mock_auction_data.py\<close>\<close>

function mock_auction_dates_loop ::
  "datetime \<Rightarrow> datetime \<Rightarrow> datetime list \<Rightarrow> datetime list" where
  "mock_auction_dates_loop current end_d dates =
     (if current \<le> end_d
      then mock_auction_dates_loop (current + 1) end_d
             (if weekday current \<in> set [1, 2, 3] then dates @ [current] else dates)
      else dates)"
  by pat_completeness auto
termination
  by (relation "measure (\<lambda>(current, end_d, dates). nat (end_d + 1 - current))") auto

declare mock_auction_dates_loop.simps [simp del]

definition mock_generate_auction_dates :: "datetime list" where
  "mock_generate_auction_dates = mock_auction_dates_loop start_date end_date []"

text \<open>
  The week tracking at the head of the main loop of the database profile:
  \<open>week_number\<close> starts at 0 and \<open>current_week_start\<close> at \<open>None\<close>.  The function
  returns, for every date of the loop, the \<open>week_number\<close> in force in its iteration.
\<close>

fun mock_track_weeks :: "int \<Rightarrow> datetime option \<Rightarrow> datetime list \<Rightarrow> int list" where
  "mock_track_weeks week_number current_week_start [] = []"
| "mock_track_weeks week_number current_week_start (auction_date # rest) =
     (if current_week_start = None \<or> auction_date - the current_week_start \<ge> 7
      then (week_number + 1) # mock_track_weeks (week_number + 1) (Some auction_date) rest
      else week_number # mock_track_weeks week_number current_week_start rest)"

definition mock_week_numbers :: "datetime list \<Rightarrow> int list" where
  "mock_week_numbers dates = mock_track_weeks 0 None dates"


section \<open>Floating point\<close>

text \<open>
  A finite double is a dyadic rational: \<open>Dy m e\<close> stands for \<open>m / 2 ^ e\<close>.  The
  exact result of an operation is rounded to 53 significant bits, ties to even
  (\<open>fround\<close>); overflow and subnormal numbers do not arise at the magnitudes of this
  program and are not modelled.  Comparisons are exact, as Python's are, also between
  an \<open>int\<close> and a \<open>float\<close>.
\<close>

datatype dyadic = Dy int nat

function bit_length :: "int \<Rightarrow> nat" where
  "bit_length n = (if n \<le> 0 then 0 else Suc (bit_length (n div 2)))"
  by pat_completeness auto
termination
  by (relation "measure nat") auto

declare bit_length.simps [simp del]

definition round_shift :: "int \<Rightarrow> nat \<Rightarrow> int" where
  "round_shift a s =
     (let q = a div 2 ^ s; r = a mod 2 ^ s
      in if 2 * r > 2 ^ s \<or> (2 * r = 2 ^ s \<and> odd q) then q + 1 else q)"

fun fround :: "dyadic \<Rightarrow> dyadic" where
  "fround (Dy m e) =
     (let a = \<bar>m\<bar>; l = bit_length a
      in if l \<le> 53 then Dy m e
         else Dy (sgn m * (round_shift a (l - 53) * 2 ^ (l - 53))) e)"

fun fmul :: "dyadic \<Rightarrow> dyadic \<Rightarrow> dyadic" where
  "fmul (Dy a s) (Dy b t) = fround (Dy (a * b) (s + t))"

fun fadd :: "dyadic \<Rightarrow> dyadic \<Rightarrow> dyadic" where
  "fadd (Dy a s) (Dy b t) = fround (Dy (a * 2 ^ t + b * 2 ^ s) (s + t))"

text \<open>\<open>float(n)\<close> of an integer: the nearest double, the integer itself below
  \<open>2 ^ 53\<close>.  The \<open>OverflowError\<close> beyond the range of a double is not modelled.\<close>

definition float_of_int :: "int \<Rightarrow> dyadic" where
  "float_of_int n = fround (Dy n 0)"

fun fless :: "dyadic \<Rightarrow> dyadic \<Rightarrow> bool" where
  "fless (Dy a s) (Dy b t) = (a * 2 ^ t < b * 2 ^ s)"

fun fle :: "dyadic \<Rightarrow> dyadic \<Rightarrow> bool" where
  "fle (Dy a s) (Dy b t) = (a * 2 ^ t \<le> b * 2 ^ s)"

text \<open>\<open>int(x)\<close> truncates towards zero, \<open>math.floor\<close> rounds down, \<open>round(x)\<close>
  rounds to the nearest integer, ties to even.\<close>

fun int_of_float :: "dyadic \<Rightarrow> int" where
  "int_of_float (Dy m e) = (if 0 \<le> m then m div 2 ^ e else - ((- m) div 2 ^ e))"

fun floor_of_float :: "dyadic \<Rightarrow> int" where
  "floor_of_float (Dy m e) = m div 2 ^ e"

fun py_round :: "dyadic \<Rightarrow> int" where
  "py_round (Dy m e) =
     (let q = m div 2 ^ e; r = m mod 2 ^ e
      in if 2 * r > 2 ^ e \<or> (2 * r = 2 ^ e \<and> odd q) then q + 1 else q)"

text \<open>The doubles that the decimal literals of the two scripts denote.\<close>

definition lit_0_0 :: dyadic where "lit_0_0 = Dy 0 0"
definition lit_0_10 :: dyadic where "lit_0_10 = Dy 3602879701896397 55"
definition lit_0_15 :: dyadic where "lit_0_15 = Dy 5404319552844595 55"
definition lit_0_18 :: dyadic where "lit_0_18 = Dy 3242591731706757 54"
definition lit_0_20 :: dyadic where "lit_0_20 = Dy 3602879701896397 54"
definition lit_0_22 :: dyadic where "lit_0_22 = Dy 7926335344172073 55"
definition lit_0_25 :: dyadic where "lit_0_25 = Dy 1 2"
definition lit_0_30 :: dyadic where "lit_0_30 = Dy 5404319552844595 54"
definition lit_0_35 :: dyadic where "lit_0_35 = Dy 3152519739159347 53"
definition lit_0_38 :: dyadic where "lit_0_38 = Dy 3422735716801577 53"
definition lit_0_5 :: dyadic where "lit_0_5 = Dy 1 1"
definition lit_0_6 :: dyadic where "lit_0_6 = Dy 5404319552844595 53"
definition lit_0_7 :: dyadic where "lit_0_7 = Dy 3152519739159347 52"
definition lit_0_8 :: dyadic where "lit_0_8 = Dy 3602879701896397 52"
definition lit_0_9 :: dyadic where "lit_0_9 = Dy 8106479329266893 53"

section \<open>Errors and the random source\<close>

datatype py_error = IndexError | ValueError | KeyError

definition bindE :: "'e + 'a \<Rightarrow> ('a \<Rightarrow> 'e + 'b) \<Rightarrow> 'e + 'b" where
  "bindE m f = (case m of Inl e \<Rightarrow> Inl e | Inr x \<Rightarrow> f x)"

text \<open>
  The module-level generator of \<open>random\<close> is a stream of outcomes and a position in it.
  Each primitive consumes one outcome and maps it into its own range, so that every
  value the primitive can return is the image of some stream: \<open>random()\<close> returns
  \<open>k / 2 ^ 53\<close> with \<open>0 \<le> k < 2 ^ 53\<close>, \<open>randint(a, b)\<close> an integer of \<open>[a, b]\<close>,
  \<open>choice(seq)\<close> an element of \<open>seq\<close>.  How the Mersenne Twister turns a seed into
  the stream is not modelled.
\<close>

datatype rng = Rng "nat \<Rightarrow> int" nat

fun next_draw :: "rng \<Rightarrow> int \<times> rng" where
  "next_draw (Rng f i) = (f i, Rng f (Suc i))"

definition random_unit :: "rng \<Rightarrow> dyadic \<times> rng" where
  "random_unit g = (let (d, g') = next_draw g in (Dy (d mod 2 ^ 53) 53, g'))"

definition randint :: "int \<Rightarrow> int \<Rightarrow> rng \<Rightarrow> py_error + (int \<times> rng)" where
  "randint a b g =
     (if b < a then Inl ValueError
      else let (d, g') = next_draw g in Inr (a + d mod (b - a + 1), g'))"

definition choice :: "'a list \<Rightarrow> rng \<Rightarrow> py_error + ('a \<times> rng)" where
  "choice seq g =
     (if seq = [] then Inl IndexError
      else let (d, g') = next_draw g in Inr (seq ! nat (d mod int (length seq)), g'))"

text \<open>\<open>itertools.accumulate\<close>: the running sums of a list.\<close>

fun accumulate_from :: "('a \<Rightarrow> 'a \<Rightarrow> 'a) \<Rightarrow> 'a \<Rightarrow> 'a list \<Rightarrow> 'a list" where
  "accumulate_from f acc [] = []"
| "accumulate_from f acc (x # xs) = f acc x # accumulate_from f (f acc x) xs"

fun accumulate :: "('a \<Rightarrow> 'a \<Rightarrow> 'a) \<Rightarrow> 'a list \<Rightarrow> 'a list" where
  "accumulate f [] = []"
| "accumulate f (x # xs) = x # accumulate_from f x xs"

text \<open>\<open>bisect.bisect_right(a, x, lo, hi)\<close>.\<close>

function bisect :: "dyadic list \<Rightarrow> dyadic \<Rightarrow> nat \<Rightarrow> nat \<Rightarrow> nat" where
  "bisect a x lo hi =
     (if lo < hi
      then let mid = (lo + hi) div 2
           in if fless x (a ! mid) then bisect a x lo mid else bisect a x (mid + 1) hi
      else lo)"
  by pat_completeness auto
termination
  by (relation "measure (\<lambda>(a, x, lo, hi). hi - lo)") auto

declare bisect.simps [simp del]

text \<open>
  \<open>random.choices(population, weights, k=1)[0]\<close>, from the cumulative weights on.
  The cumulative weights are integers when the weights are (compared exactly with the
  float \<open>random() * total\<close>) and floats when the weights are.
\<close>

definition choices_cum :: "'a list \<Rightarrow> dyadic list \<Rightarrow> rng \<Rightarrow> py_error + ('a \<times> rng)" where
  "choices_cum population cum_weights g =
     (let n = length population
      in if length cum_weights \<noteq> n then Inl ValueError
         else if cum_weights = [] then Inl IndexError
         else let total_w = fadd (last cum_weights) lit_0_0
              in if fle total_w lit_0_0 then Inl ValueError
                 else let hi = n - 1;
                          (u, g') = random_unit g;
                          idx = bisect cum_weights (fmul u total_w) 0 hi
                      in if idx < n then Inr (population ! idx, g') else Inl IndexError)"

definition choices_int :: "'a list \<Rightarrow> int list \<Rightarrow> rng \<Rightarrow> py_error + ('a \<times> rng)" where
  "choices_int population weights g =
     choices_cum population (map float_of_int (accumulate (+) weights)) g"

definition choices_float :: "'a list \<Rightarrow> dyadic list \<Rightarrow> rng \<Rightarrow> py_error + ('a \<times> rng)" where
  "choices_float population weights g =
     choices_cum population (accumulate fadd weights) g"

text \<open>\<open>random.choices(population, k=k)\<close> without weights.\<close>

fun choices_uniform :: "'a list \<Rightarrow> nat \<Rightarrow> rng \<Rightarrow> py_error + ('a list \<times> rng)" where
  "choices_uniform population 0 g = Inr ([], g)"
| "choices_uniform population (Suc k) g =
     (let n = fadd (float_of_int (int (length population))) lit_0_0;
          (u, g') = random_unit g;
          idx = floor_of_float (fmul u n)
      in if 0 \<le> idx \<and> idx < int (length population)
         then bindE (choices_uniform population k g')
                (\<lambda>(rest, g''). Inr (population ! nat idx # rest, g''))
         else Inl IndexError)"

text \<open>\<open>d[key]\<close> on a dictionary, kept as the list of its items in insertion order.\<close>

definition lookup :: "('k \<times> 'v) list \<Rightarrow> 'k \<Rightarrow> py_error + 'v" where
  "lookup d key = (case map_of d key of None \<Rightarrow> Inl KeyError | Some v \<Rightarrow> Inr v)"


section \<open>Configuration of the CSV profile\<close>

text \<open>A dictionary is the list of its items in insertion order, the order of
  \<open>keys()\<close>, \<open>values()\<close> and \<open>items()\<close>.\<close>

definition CATEGORY_DISTRIBUTION :: "(string \<times> dyadic) list" where
  "CATEGORY_DISTRIBUTION =
     [(''Construction'', lit_0_20), (''Ag Equipment'', lit_0_25),
      (''Truck/Trailer'', lit_0_35), (''Passenger'', lit_0_20)]"

definition WEEK_10_DISTRIBUTION :: "(string \<times> dyadic) list" where
  "WEEK_10_DISTRIBUTION =
     [(''Construction'', lit_0_15), (''Ag Equipment'', lit_0_25),
      (''Truck/Trailer'', lit_0_30), (''Passenger'', lit_0_30)]"

definition PRICE_RANGES :: "(string \<times> int \<times> int) list" where
  "PRICE_RANGES =
     [(''Construction'', (25000, 50000)), (''Ag Equipment'', (15000, 35000)),
      (''Truck/Trailer'', (8000, 20000)), (''Passenger'', (2000, 8000))]"

definition STATE_DISTRIBUTION :: "(string \<times> int) list" where
  "STATE_DISTRIBUTION =
     [(''KS'', 3500), (''MO'', 3000), (''OK'', 2500), (''TX'', 2000), (''NE'', 800),
      (''IA'', 800), (''IL'', 800), (''IN'', 700), (''OH'', 700), (''MI'', 500),
      (''WI'', 500), (''MN'', 500), (''ND'', 200), (''SD'', 200), (''NC'', 800),
      (''GA'', 800), (''FL'', 800), (''PA'', 400), (''VA'', 400), (''SC'', 350),
      (''NY'', 200), (''CA'', 1200), (''WA'', 700), (''OR'', 700), (''NV'', 400),
      (''AZ'', 400), (''CO'', 350)]"

definition STATE_TO_REGION :: "(string \<times> int) list" where
  "STATE_TO_REGION =
     [(''KS'', 1), (''MO'', 1), (''OK'', 1), (''TX'', 1), (''NE'', 1), (''IA'', 1), (''IL'', 1),
      (''IN'', 1), (''OH'', 1), (''MI'', 1), (''WI'', 1), (''MN'', 1), (''ND'', 1), (''SD'', 1),
      (''NC'', 2), (''GA'', 2), (''FL'', 2), (''PA'', 2), (''VA'', 2), (''SC'', 2), (''NY'', 2),
      (''CA'', 3), (''WA'', 3), (''OR'', 3), (''NV'', 3), (''AZ'', 3), (''CO'', 3)]"

definition STATE_CITIES :: "(string \<times> string list) list" where
  "STATE_CITIES =
     [(''KS'', [''Wichita'', ''Kansas City'', ''Topeka'', ''Overland Park'']),
      (''MO'', [''Kansas City'', ''St Louis'', ''Springfield'', ''Columbia'']),
      (''OK'', [''Oklahoma City'', ''Tulsa'', ''Norman'', ''Broken Arrow'']),
      (''TX'', [''Dallas'', ''Houston'', ''Austin'', ''San Antonio'']),
      (''NE'', [''Omaha'', ''Lincoln'', ''Bellevue'']),
      (''IA'', [''Des Moines'', ''Cedar Rapids'', ''Davenport'']),
      (''IL'', [''Chicago'', ''Springfield'', ''Peoria'']),
      (''IN'', [''Indianapolis'', ''Fort Wayne'', ''Evansville'']),
      (''OH'', [''Columbus'', ''Cleveland'', ''Cincinnati'']),
      (''MI'', [''Detroit'', ''Grand Rapids'', ''Lansing'']),
      (''WI'', [''Milwaukee'', ''Madison'', ''Green Bay'']),
      (''MN'', [''Minneapolis'', ''St Paul'', ''Rochester'']),
      (''ND'', [''Fargo'', ''Bismarck'']),
      (''SD'', [''Sioux Falls'', ''Rapid City'']),
      (''NC'', [''Charlotte'', ''Raleigh'', ''Greensboro'']),
      (''GA'', [''Atlanta'', ''Savannah'', ''Augusta'']),
      (''FL'', [''Jacksonville'', ''Miami'', ''Tampa'', ''Orlando'']),
      (''PA'', [''Pittsburgh'', ''Philadelphia'', ''Harrisburg'']),
      (''VA'', [''Virginia Beach'', ''Richmond'', ''Norfolk'']),
      (''SC'', [''Charleston'', ''Columbia'', ''Greenville'']),
      (''NY'', [''New York'', ''Buffalo'', ''Rochester'']),
      (''CA'', [''Los Angeles'', ''San Francisco'', ''San Diego'', ''Sacramento'']),
      (''WA'', [''Seattle'', ''Spokane'', ''Tacoma'']),
      (''OR'', [''Portland'', ''Eugene'', ''Salem'']),
      (''NV'', [''Las Vegas'', ''Reno'']),
      (''AZ'', [''Phoenix'', ''Tucson'', ''Mesa'']),
      (''CO'', [''Denver'', ''Colorado Springs'', ''Aurora''])]"

definition SUBCATEGORIES :: "(string \<times> string list) list" where
  "SUBCATEGORIES =
     [(''Construction'', [''Excavators'', ''Dozers'', ''Wheel Loaders'', ''Skid Steers'']),
      (''Ag Equipment'', [''Tractors'', ''Combines'', ''Planters'', ''Harvesters'']),
      (''Truck/Trailer'', [''Pickup Trucks'', ''Semi Tractors'', ''Dump Trucks'', ''Box Trucks'']),
      (''Passenger'', [''Sedans'', ''SUVs'', ''Minivans'', ''Coupes''])]"

definition MAKES_MODELS :: "(string \<times> (string \<times> string list) list) list" where
  "MAKES_MODELS =
     [(''Construction'',
        [(''Caterpillar'', [''330'', ''349'', ''950M'', ''962M'', ''972M'', ''D6'', ''D8'', ''D9'']),
         (''Komatsu'', [''PC210'', ''PC290'', ''WA470'', ''WA500'', ''D65'', ''D85'', ''D155'']),
         (''John Deere'', [''210G'', ''350G'', ''644K'', ''724K'', ''850K'', ''950K'']),
         (''Volvo'', [''EC220'', ''EC300'', ''EC480'', ''L120H'', ''L150H'', ''L220H''])]),
      (''Ag Equipment'',
        [(''John Deere'', [''6155R'', ''7230R'', ''8320R'', ''8370R'', ''S780'', ''S790'', ''X9 1100'', ''DB60'', ''1775NT'']),
         (''Case IH'', [''Magnum 280'', ''Magnum 340'', ''Magnum 380'', ''8250'', ''9250'', ''1255'', ''2150'']),
         (''New Holland'', [''T7.270'', ''T8.380'', ''T9.565'', ''CR8.90'', ''CR10.90'']),
         (''Massey Ferguson'', [''8735'', ''8737''])]),
      (''Truck/Trailer'',
        [(''Ford'', [''F-250'', ''F-350'', ''F-450'']),
         (''Chevrolet'', [''Silverado 2500'', ''Silverado 3500'']),
         (''Ram'', [''2500'', ''3500'']),
         (''Peterbilt'', [''348'', ''389'', ''567'', ''579'']),
         (''Kenworth'', [''T680'', ''T880'', ''W900'']),
         (''Freightliner'', [''Cascadia'', ''Columbia'', ''Century''])]),
      (''Passenger'',
        [(''Toyota'', [''Camry'', ''Corolla'', ''RAV4'', ''Highlander'']),
         (''Honda'', [''Accord'', ''Civic'', ''CR-V'', ''Pilot'']),
         (''Ford'', [''Fusion'', ''Escape'', ''Explorer'']),
         (''Chevrolet'', [''Malibu'', ''Equinox'', ''Traverse''])])]"

definition FEE_TYPES :: "(string \<times> int) list" where
  "FEE_TYPES =
     [(''Seller Service Fee'', 200), (''Lot Fee'', 150),
      (''Power Washing'', 225), (''Decal Removal'', 100)]"


section \<open>The generator of the CSV profile\<close>

text \<open>
  The records are the rows of the four CSV files.  A field carries the name of its
  column behind the initial of its record, since the generator uses the column names
  for its local variables as well.  A date written with \<open>strftime\<close> is kept as the
  date; a bid timestamp is the auction date with the hour and the minute added.
\<close>

record customer =
  c_customer_id :: int
  c_first_name :: string
  c_last_name :: string
  c_email :: string
  c_state :: string
  c_customer_type :: string
  c_business_segment :: "string option"
  c_active :: int

record item =
  i_unique_id :: int
  i_icn :: string
  i_auctiondate :: datetime
  i_year :: int
  i_make :: string
  i_model :: string
  i_category :: string
  i_subcategory :: string
  i_location_state :: string
  i_location_city :: string
  i_starting_bid :: int
  i_reserve_price :: int
  i_hammer :: int
  i_buyers_premium :: int
  i_contract_price :: int
  i_reserve_met :: int
  i_seller_id :: int
  i_buyer_id :: int
  i_num_bids :: int
  i_region_id :: int
  i_district_id :: int
  i_territory_id :: int
  i_business_segment :: "string option"

record bid =
  b_bid_id :: int
  b_item_id :: int
  b_bidder_id :: int
  b_bid_amount :: int
  b_bid_timestamp :: "datetime \<times> int \<times> int"
  b_is_winning_bid :: int

record fee =
  f_fee_id :: int
  f_item_id :: int
  f_fee_type :: string
  f_fee_amount :: int

definition items_per_day :: "datetime \<Rightarrow> rng \<Rightarrow> py_error + (int \<times> rng)" where
  "items_per_day date g =
     (let week = get_week_number date; month = month_of date
      in if week = 15 then randint 180 220 g
         else if month = 12 then randint 750 900 g
         else randint 280 350 g)"

definition get_category_distribution :: "datetime \<Rightarrow> (string \<times> dyadic) list" where
  "get_category_distribution date =
     (let week = get_week_number date
      in if week = 10 then WEEK_10_DISTRIBUTION else CATEGORY_DISTRIBUTION)"

definition generate_icn :: "rng \<Rightarrow> py_error + (string \<times> rng)" where
  "generate_icn g =
     bindE (choices_uniform ''ABCDEFGHIJKLMNOPQRSTUVWXYZ'' 2 g) (\<lambda>(letters, g1).
     bindE (choices_uniform ''0123456789'' 4 g1) (\<lambda>(numbers, g2).
     Inr (letters @ numbers, g2)))"

definition pick_weighted_state :: "rng \<Rightarrow> py_error + (string \<times> rng)" where
  "pick_weighted_state g =
     (let states = map fst STATE_DISTRIBUTION; weights = map snd STATE_DISTRIBUTION
      in choices_int states weights g)"

definition get_region_district_territory ::
  "string \<Rightarrow> rng \<Rightarrow> py_error + ((int \<times> int \<times> int) \<times> rng)" where
  "get_region_district_territory state g =
     bindE (lookup STATE_TO_REGION state) (\<lambda>region_id.
     let district_base = (region_id - 1) * 4
     in bindE (randint (district_base + 1) (district_base + 4) g) (\<lambda>(district_id, g1).
        let territory_base = (district_id - 1) * 8
        in bindE (randint (territory_base + 1) (territory_base + 8) g1)
             (\<lambda>(territory_id, g2).
        Inr ((region_id, district_id, territory_id), g2))))"

text \<open>\<open>if enterprise_sellers and random.random() < 0.70\<close>: the draw is made only when
  the list is not empty.\<close>

definition pick_seller_for_category ::
  "customer list \<Rightarrow> string \<Rightarrow> rng \<Rightarrow> py_error + (customer \<times> rng)" where
  "pick_seller_for_category sellers category g =
     (if category = ''Construction''
      then let enterprise_sellers =
                 filter (\<lambda>s. c_business_segment s = Some ''Enterprise'') sellers
           in if enterprise_sellers \<noteq> []
              then let (u, g1) = random_unit g
                   in if fless u lit_0_7 then choice enterprise_sellers g1
                      else choice sellers g1
              else choice sellers g
      else if category = ''Passenger''
      then let core_sellers = filter (\<lambda>s. c_business_segment s = Some ''Core'') sellers
           in if core_sellers \<noteq> []
              then let (u, g1) = random_unit g
                   in if fless u lit_0_6 then choice core_sellers g1
                      else choice sellers g1
              else choice sellers g
      else choice sellers g)"

text \<open>The running state of \<open>generate_items_bids_fees\<close>: the three output lists, the
  three id counters, the \<open>defaultdict(int)\<close> of items per state, the random source.\<close>

record gen_state =
  s_items :: "item list"
  s_bids :: "bid list"
  s_fees :: "fee list"
  s_item_id :: int
  s_bid_id :: int
  s_fee_id :: int
  s_items_by_state :: "string \<Rightarrow> int"
  s_rng :: rng

text \<open>"Pick state (weighted by remaining quota)"; \<open>target_by_state\<close> is a copy of
  \<open>STATE_DISTRIBUTION\<close> that is never changed.\<close>

definition remaining_states :: "(string \<Rightarrow> int) \<Rightarrow> (string \<times> int) list" where
  "remaining_states items_by_state =
     map (\<lambda>(s, target). (s, max 0 (target - items_by_state s))) STATE_DISTRIBUTION"

definition pick_state :: "(string \<Rightarrow> int) \<Rightarrow> rng \<Rightarrow> py_error + (string \<times> rng)" where
  "pick_state items_by_state g =
     (let remaining = remaining_states items_by_state
      in if sum_list (map snd remaining) = 0
         then pick_weighted_state g
         else let states = map fst remaining; weights = map snd remaining
              in choices_int states weights g)"

text \<open>"Generate prices".\<close>

record prices =
  p_starting_bid :: int
  p_reserve_price :: int
  p_hammer :: int
  p_reserve_met :: int
  p_buyers_premium :: int
  p_contract_price :: int

definition gen_prices :: "string \<Rightarrow> rng \<Rightarrow> py_error + (prices \<times> rng)" where
  "gen_prices category g =
     bindE (lookup PRICE_RANGES category) (\<lambda>(min_price, max_price).
     bindE (randint (int_of_float (fmul (float_of_int min_price) lit_0_5))
                    (int_of_float (fmul (float_of_int min_price) lit_0_8)) g)
       (\<lambda>(starting_bid, g1).
     bindE (randint (int_of_float (fmul (float_of_int min_price) lit_0_7))
                    (int_of_float (fmul (float_of_int min_price) lit_0_9)) g1)
       (\<lambda>(reserve_price, g2).
     bindE (randint min_price max_price g2) (\<lambda>(hammer, g3).
     let reserve_met = (if hammer \<ge> reserve_price then 1 else 0);
         buyers_premium = int_of_float (fmul (float_of_int hammer) lit_0_10);
         contract_price = hammer + buyers_premium
     in Inr (\<lparr>p_starting_bid = starting_bid, p_reserve_price = reserve_price,
               p_hammer = hammer, p_reserve_met = reserve_met,
               p_buyers_premium = buyers_premium, p_contract_price = contract_price\<rparr>,
             g3)))))"


text \<open>
  "Generate bids for this item": the loop \<open>for bid_num in range(num_bids)\<close>, from
  \<open>bid_num\<close> on.  It returns the bids it appends, the next \<open>bid_id\<close> and the random
  source.
\<close>

function bids_loop ::
  "customer list \<Rightarrow> customer \<Rightarrow> int \<Rightarrow> datetime \<Rightarrow> int \<Rightarrow> int \<Rightarrow> int \<Rightarrow> int \<Rightarrow> int \<Rightarrow> rng
     \<Rightarrow> py_error + (bid list \<times> int \<times> rng)" where
  "bids_loop buyers buyer hammer auction_date item_id num_bids bid_num current_bid bid_id g =
     (if bid_num < num_bids
      then bindE (choice buyers g) (\<lambda>(bidder, g1).
           bindE (randint 100 1000 g1) (\<lambda>(increment, g2).
           let current_bid1 = current_bid + increment;
               is_winning = (if bid_num = num_bids - 1 then 1 else 0);
               current_bid2 = (if is_winning \<noteq> 0 then hammer else current_bid1);
               bidder_id = (if is_winning \<noteq> 0 then c_customer_id buyer
                            else c_customer_id bidder)
           in bindE (randint 8 17 g2) (\<lambda>(hours, g3).
              bindE (randint 0 59 g3) (\<lambda>(minutes, g4).
              let new_bid = \<lparr>b_bid_id = bid_id, b_item_id = item_id,
                               b_bidder_id = bidder_id, b_bid_amount = current_bid2,
                               b_bid_timestamp = (auction_date, hours, minutes),
                               b_is_winning_bid = is_winning\<rparr>
              in bindE (bids_loop buyers buyer hammer auction_date item_id num_bids
                          (bid_num + 1) current_bid2 (bid_id + 1) g4)
                   (\<lambda>(rest, bid_id', g'). Inr (new_bid # rest, bid_id', g'))))))
      else Inr ([], bid_id, g))"
  by pat_completeness auto
termination
  by (relation "measure (\<lambda>(buyers, buyer, hammer, auction_date, item_id, num_bids,
                            bid_num, current_bid, bid_id, g). nat (num_bids - bid_num))")
     auto

declare bids_loop.simps [simp del]

definition gen_bids ::
  "customer list \<Rightarrow> customer \<Rightarrow> int \<Rightarrow> datetime \<Rightarrow> int \<Rightarrow> int \<Rightarrow> int \<Rightarrow> int \<Rightarrow> rng
     \<Rightarrow> py_error + (bid list \<times> int \<times> rng)" where
  "gen_bids buyers buyer hammer auction_date item_id num_bids starting_bid bid_id g =
     (let current_bid = starting_bid
      in bids_loop buyers buyer hammer auction_date item_id num_bids 0 current_bid bid_id g)"

text \<open>"Generate fees for this item".\<close>

definition gen_fees :: "int \<Rightarrow> int \<Rightarrow> rng \<Rightarrow> py_error + (fee list \<times> int \<times> rng)" where
  "gen_fees item_id fee_id g =
     bindE (lookup FEE_TYPES ''Seller Service Fee'') (\<lambda>a1.
     let fees1 = [\<lparr>f_fee_id = fee_id, f_item_id = item_id,
                    f_fee_type = ''Seller Service Fee'', f_fee_amount = a1\<rparr>];
         fee_id1 = fee_id + 1
     in bindE (lookup FEE_TYPES ''Lot Fee'') (\<lambda>a2.
     let fees2 = fees1 @ [\<lparr>f_fee_id = fee_id1, f_item_id = item_id,
                            f_fee_type = ''Lot Fee'', f_fee_amount = a2\<rparr>];
         fee_id2 = fee_id1 + 1;
         (u1, g1) = random_unit g
     in bindE (if fless u1 lit_0_6
               then bindE (lookup FEE_TYPES ''Power Washing'') (\<lambda>a3.
                    Inr (fees2 @ [\<lparr>f_fee_id = fee_id2, f_item_id = item_id,
                                     f_fee_type = ''Power Washing'', f_fee_amount = a3\<rparr>],
                         fee_id2 + 1))
               else Inr (fees2, fee_id2)) (\<lambda>(fees3, fee_id3).
     let (u2, g2) = random_unit g1
     in bindE (if fless u2 lit_0_20
               then bindE (lookup FEE_TYPES ''Decal Removal'') (\<lambda>a4.
                    Inr (fees3 @ [\<lparr>f_fee_id = fee_id3, f_item_id = item_id,
                                     f_fee_type = ''Decal Removal'', f_fee_amount = a4\<rparr>],
                         fee_id3 + 1))
               else Inr (fees3, fee_id3)) (\<lambda>(fees4, fee_id4).
     Inr (fees4, fee_id4, g2)))))"

text \<open>The body of \<open>for _ in range(num_items)\<close>: one item, its bids and its fees.\<close>

definition gen_item ::
  "customer list \<Rightarrow> customer list \<Rightarrow> datetime \<Rightarrow> (string \<times> dyadic) list \<Rightarrow> gen_state
     \<Rightarrow> py_error + gen_state" where
  "gen_item sellers buyers auction_date category_dist st =
     bindE (choices_float (map fst category_dist) (map snd category_dist) (s_rng st))
       (\<lambda>(category, g1).
     bindE (pick_state (s_items_by_state st) g1) (\<lambda>(state, g2).
     let items_by_state = (s_items_by_state st)(state := s_items_by_state st state + 1)
     in bindE (lookup STATE_CITIES state) (\<lambda>cities.
     bindE (choice cities g2) (\<lambda>(city, g3).
     bindE (lookup SUBCATEGORIES category) (\<lambda>subcategories.
     bindE (choice subcategories g3) (\<lambda>(subcategory, g4).
     bindE (lookup MAKES_MODELS category) (\<lambda>makes.
     bindE (choice makes g4) (\<lambda>((make, models), g5).
     bindE (choice models g5) (\<lambda>(model, g6).
     bindE (gen_prices category g6) (\<lambda>(pr, g7).
     bindE (get_region_district_territory state g7)
       (\<lambda>((region_id, district_id, territory_id), g8).
     bindE (pick_seller_for_category sellers category g8) (\<lambda>(seller, g9).
     bindE (choice buyers g9) (\<lambda>(buyer, g10).
     bindE (generate_icn g10) (\<lambda>(icn, g11).
     bindE (randint 1990 2024 g11) (\<lambda>(year, g12).
     bindE (randint 1 15 g12) (\<lambda>(num_bids, g13).
     let item_id = s_item_id st;
         new_item = \<lparr>i_unique_id = item_id, i_icn = icn, i_auctiondate = auction_date,
                      i_year = year, i_make = make, i_model = model,
                      i_category = category, i_subcategory = subcategory,
                      i_location_state = state, i_location_city = city,
                      i_starting_bid = p_starting_bid pr,
                      i_reserve_price = p_reserve_price pr, i_hammer = p_hammer pr,
                      i_buyers_premium = p_buyers_premium pr,
                      i_contract_price = p_contract_price pr,
                      i_reserve_met = p_reserve_met pr,
                      i_seller_id = c_customer_id seller,
                      i_buyer_id = c_customer_id buyer, i_num_bids = num_bids,
                      i_region_id = region_id, i_district_id = district_id,
                      i_territory_id = territory_id,
                      i_business_segment = c_business_segment seller\<rparr>
     in bindE (gen_bids buyers buyer (p_hammer pr) auction_date item_id
                 (i_num_bids new_item) (p_starting_bid pr) (s_bid_id st) g13)
          (\<lambda>(new_bids, bid_id, g14).
        bindE (gen_fees item_id (s_fee_id st) g14) (\<lambda>(new_fees, fee_id, g15).
        Inr \<lparr>s_items = s_items st @ [new_item], s_bids = s_bids st @ new_bids,
              s_fees = s_fees st @ new_fees, s_item_id = item_id + 1,
              s_bid_id = bid_id, s_fee_id = fee_id,
              s_items_by_state = items_by_state, s_rng = g15\<rparr>))))))))))))))))))"

fun gen_items ::
  "nat \<Rightarrow> customer list \<Rightarrow> customer list \<Rightarrow> datetime \<Rightarrow> (string \<times> dyadic) list \<Rightarrow> gen_state
     \<Rightarrow> py_error + gen_state" where
  "gen_items 0 sellers buyers auction_date category_dist st = Inr st"
| "gen_items (Suc n) sellers buyers auction_date category_dist st =
     bindE (gen_item sellers buyers auction_date category_dist st)
       (gen_items n sellers buyers auction_date category_dist)"

text \<open>The body of \<open>for auction_date in auction_dates\<close>, and the loop.  The customers
  are the argument of \<open>generate_items_bids_fees\<close>; how \<open>generate_customers\<close> draws
  them plays no part below.\<close>

definition gen_day ::
  "customer list \<Rightarrow> customer list \<Rightarrow> datetime \<Rightarrow> gen_state \<Rightarrow> py_error + gen_state" where
  "gen_day sellers buyers auction_date st =
     bindE (items_per_day auction_date (s_rng st)) (\<lambda>(num_items, g).
     let category_dist = get_category_distribution auction_date
     in gen_items (nat num_items) sellers buyers auction_date category_dist
          (st\<lparr>s_rng := g\<rparr>))"

fun gen_days ::
  "datetime list \<Rightarrow> customer list \<Rightarrow> customer list \<Rightarrow> gen_state \<Rightarrow> py_error + gen_state" where
  "gen_days [] sellers buyers st = Inr st"
| "gen_days (auction_date # rest) sellers buyers st =
     bindE (gen_day sellers buyers auction_date st) (gen_days rest sellers buyers)"

definition generate_items_bids_fees ::
  "customer list \<Rightarrow> rng \<Rightarrow> py_error + ((item list \<times> bid list \<times> fee list) \<times> rng)" where
  "generate_items_bids_fees customers g =
     (let sellers = filter (\<lambda>c. c_customer_type c \<in> set [''seller'', ''both'']) customers;
          buyers = filter (\<lambda>c. c_customer_type c \<in> set [''buyer'', ''both'']) customers;
          auction_dates = generate_auction_dates;
          st0 = \<lparr>s_items = [], s_bids = [], s_fees = [], s_item_id = 1, s_bid_id = 1,
                 s_fee_id = 1, s_items_by_state = (\<lambda>s. 0), s_rng = g\<rparr>
      in bindE (gen_days auction_dates sellers buyers st0)
           (\<lambda>st. Inr ((s_items st, s_bids st, s_fees st), s_rng st)))"

section \<open>The generator of the database profile\<close>

text \<open>The dictionary that \<open>generate_fees\<close> returns.\<close>

record mock_fees =
  m_seller_service_fee :: int
  m_lot_fee :: int
  m_power_washing :: int
  m_decal_removal :: int
  m_total_fees :: int
  m_contract_price :: dyadic

definition generate_fees :: "int \<Rightarrow> rng \<Rightarrow> mock_fees \<times> rng" where
  "generate_fees hammer_price g =
     (let seller_service_fee = 200;
          lot_fee = 150;
          (u1, g1) = random_unit g;
          power_washing = (if fless lit_0_6 u1 then 225 else 0);
          (u2, g2) = random_unit g1;
          decal_removal = (if fless lit_0_8 u2 then 100 else 0);
          total_fees = seller_service_fee + lot_fee + power_washing + decal_removal;
          contract_price = fadd (float_of_int hammer_price)
                             (fmul (float_of_int hammer_price) lit_0_10)
      in (\<lparr>m_seller_service_fee = seller_service_fee, m_lot_fee = lot_fee,
            m_power_washing = power_washing, m_decal_removal = decal_removal,
            m_total_fees = total_fees, m_contract_price = contract_price\<rparr>, g2))"


section \<open>A worked example\<close>

text \<open>
  Two items generated on Tuesday 2025-08-05 from one seller, one buyer and a random
  source whose outcomes are 0 but for five positions: the first item is a passenger
  vehicle with starting bid 1600, hammer price 2006 and two bids, the first bid raised
  by 1000; the second item has a single bid.
\<close>

definition ex_customer :: "int \<Rightarrow> string \<Rightarrow> string option \<Rightarrow> customer" where
  "ex_customer i t b =
     \<lparr>c_customer_id = i, c_first_name = ''Mary'', c_last_name = ''Smith'',
      c_email = ''mary.smith1@email.com'', c_state = ''KS'', c_customer_type = t,
      c_business_segment = b, c_active = 1\<rparr>"

definition ex_rng :: rng where
  "ex_rng = Rng (\<lambda>i. if i = 0 then 2 ^ 53 - 1 else if i = 6 then 600 else if i = 8 then 6
                      else if i = 20 then 1 else if i = 22 then 900 else 0) 0"

definition ex_state :: gen_state where
  "ex_state = \<lparr>s_items = [], s_bids = [], s_fees = [], s_item_id = 1, s_bid_id = 1,
                s_fee_id = 1, s_items_by_state = (\<lambda>s. 0), s_rng = ex_rng\<rparr>"

definition ex_run :: "py_error + gen_state" where
  "ex_run = gen_items 2 [ex_customer 3 ''seller'' (Some ''Enterprise'')]
              [ex_customer 7 ''buyer'' None] (ymd2ord 2025 8 5) CATEGORY_DISTRIBUTION
              ex_state"

section \<open>The calendar of both profiles\<close>

lemma date_consts:
  "start_date = 739464" "end_date = 739616" "holidays = [739582, 739610]"
  "ymd2ord 2025 8 1 = 739464" "ymd2ord 2025 11 27 = 739582" "ymd2ord 2025 12 25 = 739610"
  by (simp_all add: start_date_def end_date_def holidays_def ymd2ord_def
      days_before_year_def days_before_month_def DAYS_BEFORE_MONTH_def is_leap_def)

lemma auction_dates_loop_filter:
  "auction_dates_loop c e hol acc
     = acc @ filter (\<lambda>d. weekday d \<in> {1, 2, 3} \<and> d \<notin> set hol) [c..e]"
proof (induction c e hol acc rule: auction_dates_loop.induct)
  case (1 current end_d hol dates)
  show ?case
  proof (cases "current \<le> end_d")
    case True
    then have u: "[current..end_d] = current # [current + 1..end_d]"
      by (simp add: upto_rec1)
    show ?thesis
      using True 1 by (subst auction_dates_loop.simps) (simp add: u)
  next
    case False
    then show ?thesis by (subst auction_dates_loop.simps) simp
  qed
qed

lemma mock_auction_dates_loop_filter:
  "mock_auction_dates_loop c e acc = acc @ filter (\<lambda>d. weekday d \<in> {1, 2, 3}) [c..e]"
proof (induction c e acc rule: mock_auction_dates_loop.induct)
  case (1 current end_d dates)
  show ?case
  proof (cases "current \<le> end_d")
    case True
    then have u: "[current..end_d] = current # [current + 1..end_d]"
      by (simp add: upto_rec1)
    show ?thesis
      using True 1 by (subst mock_auction_dates_loop.simps) (simp add: u)
  next
    case False
    then show ?thesis by (subst mock_auction_dates_loop.simps) simp
  qed
qed

text \<open>
  C4, as stated, fails on the database profile: its \<open>generate_auction_dates\<close> has no
  holiday set, and Thanksgiving 2025-11-27, a Thursday in the holiday set of the CSV
  profile, is among the dates it returns.
\<close>

theorem mock_dates_contain_holiday:
  "ymd2ord 2025 11 27 \<in> set holidays
   \<and> ymd2ord 2025 11 27 \<in> set mock_generate_auction_dates"
  by (simp add: date_consts mock_generate_auction_dates_def mock_auction_dates_loop_filter
      weekday_def)

text \<open>
  C4, amended.  The CSV profile returns, in chronological order, exactly the dates of
  \<open>[start, end]\<close> that fall on a Tuesday, Wednesday or Thursday and are not in the
  holiday set.  The database profile returns, in chronological order, exactly the dates
  of \<open>[start, end]\<close> that fall on a Tuesday, Wednesday or Thursday: it excludes no
  holiday.
\<close>

theorem auction_dates_both_profiles:
  "generate_auction_dates
     = filter (\<lambda>d. weekday d \<in> {1, 2, 3} \<and> d \<notin> set holidays) [start_date..end_date]
   \<and> sorted_wrt (<) generate_auction_dates
   \<and> mock_generate_auction_dates
     = filter (\<lambda>d. weekday d \<in> {1, 2, 3}) [start_date..end_date]
   \<and> sorted_wrt (<) mock_generate_auction_dates"
proof -
  have s: "sorted_wrt (<) (filter P [start_date..end_date])" for P
    by (rule sorted_wrt_filter) (rule sorted_wrt_upto)
  show ?thesis
    unfolding generate_auction_dates_def mock_generate_auction_dates_def
      auction_dates_loop_filter mock_auction_dates_loop_filter
    using s by simp
qed

text \<open>
  C8.  On every date of the auction calendar, the week number that the tracking loop of
  the database profile assigns equals \<open>(date - epoch).days // 7 + 1\<close> with the epoch
  2025-08-01, the value of \<open>get_week_number\<close> of the CSV profile.  This holds on the
  calendar the loop runs over and on the calendar of the CSV profile alike.
\<close>

theorem week_tracker_agrees:
  "mock_week_numbers mock_generate_auction_dates
     = map get_week_number mock_generate_auction_dates
   \<and> mock_week_numbers generate_auction_dates = map get_week_number generate_auction_dates"
  by code_simp

section \<open>Fees\<close>

text \<open>
  C10.  In the dictionary that \<open>generate_fees\<close> of the database profile returns, and
  whose entries become the columns of the inserted row, \<open>total_fees\<close> is the sum of the
  four fees; the two fixed fees are 200 and 150, and each optional fee is its amount
  when included and 0 when not.
\<close>

theorem mock_total_fees_sum:
  "(let f = fst (generate_fees hammer_price g);
        u1 = fst (random_unit g);
        u2 = fst (random_unit (snd (random_unit g)))
    in m_total_fees f
         = m_seller_service_fee f + m_lot_fee f + m_power_washing f + m_decal_removal f
       \<and> m_seller_service_fee f = 200 \<and> m_lot_fee f = 150
       \<and> m_power_washing f = (if fless lit_0_6 u1 then 225 else 0)
       \<and> m_decal_removal f = (if fless lit_0_8 u2 then 100 else 0))"
  by (simp add: generate_fees_def Let_def split: prod.splits)

text \<open>
  C7 fails on the database profile.  At the unit draw 1/2 the CSV profile, which tests
  \<open>random() < 0.60\<close>, emits the Power Washing fee, and the database profile, which
  tests \<open>random() > 0.6\<close>, leaves \<open>power_washing\<close> at 0: it includes the fee on the
  draws above 0.6, a set of measure 0.40.
\<close>

theorem mock_power_washing_at_half:
  "(case gen_fees 1 1 (Rng (\<lambda>i. 2 ^ 52) 0) of
      Inl e \<Rightarrow> [] | Inr (fs, r) \<Rightarrow> map f_fee_type fs)
     = [''Seller Service Fee'', ''Lot Fee'', ''Power Washing'']
   \<and> m_power_washing (fst (generate_fees 2006 (Rng (\<lambda>i. 2 ^ 52) 0))) = 0"
  by (simp add: gen_fees_def generate_fees_def bindE_def lookup_def FEE_TYPES_def Let_def
      random_unit_def lit_0_6_def lit_0_20_def split: prod.splits)

section \<open>Rounding to a double\<close>

lemma bit_length_le: "n < 2 ^ k \<Longrightarrow> bit_length n \<le> k"
proof (induction k arbitrary: n)
  case 0
  then show ?case by (subst bit_length.simps) simp
next
  case (Suc k)
  show ?case
  proof (cases "n \<le> 0")
    case True
    then show ?thesis by (subst bit_length.simps) simp
  next
    case False
    have "n div 2 < 2 ^ k" using Suc.prems by simp
    then have "bit_length (n div 2) \<le> k" by (rule Suc.IH)
    then show ?thesis using False by (subst bit_length.simps) simp
  qed
qed

lemma float_of_int_small: "\<bar>n\<bar> < 2 ^ 53 \<Longrightarrow> float_of_int n = Dy n 0"
  using bit_length_le[of "\<bar>n\<bar>" 53] by (simp add: float_of_int_def)

lemma round_shift_bounds:
  "a div 2 ^ s \<le> round_shift a s \<and> round_shift a s \<le> a div 2 ^ s + 1"
  by (simp add: round_shift_def Let_def)

lemma fround_nonneg_bounds:
  assumes "0 \<le> q" "q < 2 ^ (53 + k)"
  shows "\<exists>num. fround (Dy q e) = Dy num e
           \<and> (\<forall>c. \<forall>j\<ge>k. c * 2 ^ j \<le> q \<longrightarrow> c * 2 ^ j \<le> num) \<and> num \<le> q + 2 ^ k"
proof (cases "bit_length \<bar>q\<bar> \<le> 53")
  case True
  then show ?thesis by simp
next
  case False
  define s where "s = bit_length \<bar>q\<bar> - 53"
  have l: "bit_length \<bar>q\<bar> \<le> 53 + k" using assms bit_length_le[of "\<bar>q\<bar>" "53 + k"] by simp
  then have sk: "s \<le> k" by (simp add: s_def)
  have qpos: "0 < q" using False assms(1)
    by (cases "q = 0") (simp_all add: bit_length.simps)
  define num where "num = round_shift q s * 2 ^ s"
  have fr: "fround (Dy q e) = Dy num e"
    using False qpos by (simp add: Let_def s_def num_def)
  have lo: "q div 2 ^ s \<le> round_shift q s" and hi: "round_shift q s \<le> q div 2 ^ s + 1"
    using round_shift_bounds[of q s] by simp_all
  have up: "num \<le> q + 2 ^ k"
  proof -
    have "num \<le> (q div 2 ^ s + 1) * 2 ^ s"
      unfolding num_def using hi by (simp add: mult_right_mono)
    also have "\<dots> = (q div 2 ^ s) * 2 ^ s + 2 ^ s" by (simp add: algebra_simps)
    also have "\<dots> \<le> q + 2 ^ s"
    proof -
      have "0 \<le> q mod 2 ^ s" by simp
      then show ?thesis using div_mult_mod_eq[of q "2 ^ s"] by linarith
    qed
    also have "\<dots> \<le> q + 2 ^ k" using sk by (simp add: power_increasing)
    finally show ?thesis .
  qed
  have low: "c * 2 ^ j \<le> num" if "j \<ge> k" "c * 2 ^ j \<le> q" for c j
  proof -
    have js: "s \<le> j" using sk that(1) by simp
    have "(2::int) ^ j = 2 ^ (j - s) * 2 ^ s" using js by (simp flip: power_add)
    then have e: "c * 2 ^ j = (c * 2 ^ (j - s)) * 2 ^ s" by simp
    have "(c * 2 ^ (j - s)) * 2 ^ s div 2 ^ s \<le> q div 2 ^ s"
      using that(2) unfolding e by (intro zdiv_mono1) simp_all
    then have "c * 2 ^ (j - s) \<le> q div 2 ^ s" by simp
    then have "c * 2 ^ (j - s) \<le> round_shift q s" using lo by simp
    then have "(c * 2 ^ (j - s)) * 2 ^ s \<le> round_shift q s * 2 ^ s"
      by (simp add: mult_right_mono)
    then show ?thesis unfolding e num_def .
  qed
  show ?thesis using fr up low by blast
qed

lemma int_tenth_trunc:
  assumes "0 \<le> h" "h \<le> 1000000"
  shows "int_of_float (fmul (float_of_int h) lit_0_10) = h div 10"
proof -
  define q where "q = h * 3602879701896397"
  have q0: "0 \<le> q" using assms by (simp add: q_def)
  have "q \<le> 1000000 * 3602879701896397" unfolding q_def using assms by simp
  also have "\<dots> < (2::int) ^ (53 + 19)" by simp
  finally have qb: "q < 2 ^ (53 + 19)" .
  obtain num where fr: "fround (Dy q 55) = Dy num 55"
    and low: "\<And>c j. j \<ge> 19 \<Longrightarrow> c * 2 ^ j \<le> q \<Longrightarrow> c * 2 ^ j \<le> num"
    and up: "num \<le> q + 2 ^ 19"
    using fround_nonneg_bounds[OF q0 qb, of 55] by blast
  define n r where "n = h div 10" and "r = h mod 10"
  have h: "h = 10 * n + r" and r: "0 \<le> r" "r \<le> 9" and n: "0 \<le> n" "n \<le> 100000"
    using assms by (auto simp: n_def r_def)
  have q10: "10 * q = h * 36028797018963968 + 2 * h" by (simp add: q_def)
  have p55: "(2::int) ^ 55 = 36028797018963968" by simp
  have "n * 2 ^ 55 \<le> q" unfolding p55 using q10 h r n by linarith
  then have lo: "n * 2 ^ 55 \<le> num" by (intro low) simp_all
  have hi: "num < (n + 1) * 2 ^ 55"
    unfolding p55 using up q10 h r n by simp
  have n0: "0 \<le> num" using lo n unfolding p55 by linarith
  have "num div 2 ^ 55 = n"
    using lo hi by (intro int_div_pos_eq[where r = "num - n * 2 ^ 55"]) (simp_all add: algebra_simps)
  then show ?thesis
    using fr n0 assms by (simp add: float_of_int_small lit_0_10_def q_def n_def)
qed

section \<open>The random primitives and the bid loop\<close>

lemma bindE_Inr_iff: "bindE m f = Inr y \<longleftrightarrow> (\<exists>x. m = Inr x \<and> f x = Inr y)"
  by (cases m) (simp_all add: bindE_def)

lemma bindE_simps [simp]: "bindE (Inr x) f = f x" "bindE (Inl e) f = Inl e"
  by (simp_all add: bindE_def)

lemma randint_range:
  assumes "randint a b g = Inr (x, g')"
  shows "a \<le> x \<and> x \<le> b"
proof -
  obtain f i where g: "g = Rng f i" by (cases g)
  from assms have ab: "a \<le> b" and x: "x = a + f i mod (b - a + 1)"
    by (auto simp: randint_def g split: if_splits)
  have "0 < b - a + 1" using ab by simp
  then have "0 \<le> f i mod (b - a + 1)" "f i mod (b - a + 1) < b - a + 1"
    by (rule pos_mod_sign, rule pos_mod_bound)
  then show ?thesis using x by linarith
qed

lemma choice_mem:
  assumes "choice xs g = Inr (x, g')"
  shows "x \<in> set xs"
proof -
  obtain f i where g: "g = Rng f i" by (cases g)
  from assms have ne: "xs \<noteq> []" and x: "x = xs ! nat (f i mod int (length xs))"
    by (auto simp: choice_def g split: if_splits)
  have "f i mod int (length xs) < int (length xs)" "0 \<le> f i mod int (length xs)"
    using ne by simp_all
  then have "nat (f i mod int (length xs)) < length xs" by linarith
  then show ?thesis unfolding x by (rule nth_mem)
qed

lemma bids_loop_step:
  assumes "bid_num < num_bids"
    and "bids_loop buyers buyer hammer d item_id num_bids bid_num cur bid_id g = Inr (bs, bid_id', g')"
  shows "\<exists>bidder g1 inc g2 hours g3 minutes g4 rest.
    choice buyers g = Inr (bidder, g1) \<and> randint 100 1000 g1 = Inr (inc, g2) \<and>
    randint 8 17 g2 = Inr (hours, g3) \<and> randint 0 59 g3 = Inr (minutes, g4) \<and>
    bids_loop buyers buyer hammer d item_id num_bids (bid_num + 1)
       (if bid_num = num_bids - 1 then hammer else cur + inc) (bid_id + 1) g4
       = Inr (rest, bid_id', g') \<and>
    bs = \<lparr>b_bid_id = bid_id, b_item_id = item_id,
           b_bidder_id = (if bid_num = num_bids - 1 then c_customer_id buyer
                          else c_customer_id bidder),
           b_bid_amount = (if bid_num = num_bids - 1 then hammer else cur + inc),
           b_bid_timestamp = (d, hours, minutes),
           b_is_winning_bid = (if bid_num = num_bids - 1 then 1 else 0)\<rparr> # rest"
proof -
  note e = bids_loop.simps[of buyers buyer hammer d item_id num_bids bid_num cur bid_id g]
  show ?thesis
    using assms unfolding e
    by (auto simp: bindE_Inr_iff Let_def split: prod.splits if_splits)
qed

lemma bids_loop_done:
  "\<not> bid_num < num_bids \<Longrightarrow>
   bids_loop buyers buyer hammer d item_id num_bids bid_num cur bid_id g = Inr ([], bid_id, g)"
  by (subst bids_loop.simps) simp

lemma bids_loop_props:
  assumes "bids_loop B buyer hammer d item_id num_bids bid_num cur bid_id g = Inr (bs, bid_id', g')"
  shows "length bs = nat (num_bids - bid_num)
    \<and> (\<forall>b\<in>set bs. b_item_id b = item_id)
    \<and> map b_is_winning_bid bs = replicate (length bs - 1) 0 @ (if bs = [] then [] else [1])
    \<and> (bs \<noteq> [] \<longrightarrow> b_bid_amount (last bs) = hammer \<and> b_bidder_id (last bs) = c_customer_id buyer)
    \<and> (\<forall>b\<in>set (butlast bs). cur + 100 \<le> b_bid_amount b)
    \<and> sorted_wrt (<) (map b_bid_amount (butlast bs))
    \<and> (2 \<le> length bs \<longrightarrow> cur + 100 \<le> b_bid_amount (hd bs) \<and> b_bid_amount (hd bs) \<le> cur + 1000)
    \<and> map b_bid_id bs = map (\<lambda>i. bid_id + int i) [0..<length bs]
    \<and> bid_id' = bid_id + int (length bs)"
  using assms
proof (induction "nat (num_bids - bid_num)" arbitrary: bid_num cur bid_id g bs)
  case 0
  then have nlt: "\<not> bid_num < num_bids" by simp
  from bids_loop_done[OF nlt] 0(2) nlt show ?case by simp
next
  case (Suc k)
  then have lt: "bid_num < num_bids" by simp
  from bids_loop_step[OF lt Suc.prems] obtain bidder g1 inc g2 hours g3 minutes g4 rest
    where "choice B g = Inr (bidder, g1)" and inc: "randint 100 1000 g1 = Inr (inc, g2)"
      and "randint 8 17 g2 = Inr (hours, g3)" and "randint 0 59 g3 = Inr (minutes, g4)"
      and rec: "bids_loop B buyer hammer d item_id num_bids (bid_num + 1)
         (if bid_num = num_bids - 1 then hammer else cur + inc) (bid_id + 1) g4
         = Inr (rest, bid_id', g')"
      and bs: "bs = \<lparr>b_bid_id = bid_id, b_item_id = item_id,
           b_bidder_id = (if bid_num = num_bids - 1 then c_customer_id buyer
                          else c_customer_id bidder),
           b_bid_amount = (if bid_num = num_bids - 1 then hammer else cur + inc),
           b_bid_timestamp = (d, hours, minutes),
           b_is_winning_bid = (if bid_num = num_bids - 1 then 1 else 0)\<rparr> # rest"
    by blast
  have k: "k = nat (num_bids - (bid_num + 1))" using Suc.hyps(2) by simp
  note ih = Suc.hyps(1)[OF k rec]
  have r: "100 \<le> inc" "inc \<le> 1000" using randint_range[OF inc] by simp_all
  have len: "length rest = nat (num_bids - (bid_num + 1))" using ih by simp
  show ?case
  proof (cases "bid_num = num_bids - 1")
    case True
    then have "rest = []" using len by simp
    then show ?thesis using True bs ih by simp
  next
    case False
    then have ne: "rest \<noteq> []" using len lt by auto
    have ids: "map b_bid_id rest = map (\<lambda>i. bid_id + 1 + int i) [0..<length rest]"
      using ih by simp
    have "map (\<lambda>i. bid_id + int i) [0..<Suc (length rest)]
          = bid_id # map (\<lambda>i. bid_id + 1 + int i) [0..<length rest]"
      by (simp add: upt_rec[of 0] map_Suc_upt[symmetric] del: upt_Suc)
    then have ids': "map b_bid_id bs = map (\<lambda>i. bid_id + int i) [0..<length bs]"
      using ids bs by simp
    have am: "\<forall>b\<in>set (butlast rest). cur + inc + 100 \<le> b_bid_amount b"
      using ih False by simp
    have rep: "replicate (length rest) (0::int) = 0 # replicate (length rest - 1) 0"
      using ne by (cases rest) simp_all
    show ?thesis
      using False bs ih ne r am ids' rep lt
      by (auto simp: len)
  qed
qed

section \<open>Items, their prices and their bids\<close>

lemma price_ranges_cases:
  "lookup PRICE_RANGES category = Inr (mn, mx) \<Longrightarrow>
     (mn, mx) \<in> {(25000, 50000), (15000, 35000), (8000, 20000), (2000, 8000)}"
  by (auto simp: lookup_def PRICE_RANGES_def split: if_splits)

lemma price_range_ints:
  "map (\<lambda>mn. (int_of_float (fmul (float_of_int mn) lit_0_5),
               int_of_float (fmul (float_of_int mn) lit_0_8),
               int_of_float (fmul (float_of_int mn) lit_0_7),
               int_of_float (fmul (float_of_int mn) lit_0_9))) [25000, 15000, 8000, 2000]
   = [(12500, 20000, 17500, 22500), (7500, 12000, 10500, 13500),
      (4000, 6400, 5600, 7200), (1000, 1600, 1400, 1800)]"
  by (simp add: float_of_int_def lit_0_5_def lit_0_8_def lit_0_7_def lit_0_9_def
      bit_length.simps round_shift_def)

lemma gen_prices_facts:
  assumes "gen_prices category g = Inr (pr, g')"
  shows "p_buyers_premium pr = int_of_float (fmul (float_of_int (p_hammer pr)) lit_0_10)"
    and "p_contract_price pr = p_hammer pr + p_buyers_premium pr"
    and "p_reserve_met pr = (if p_hammer pr \<ge> p_reserve_price pr then 1 else 0)"
    and "p_starting_bid pr < p_hammer pr"
    and "2000 \<le> p_hammer pr" and "p_hammer pr \<le> 50000"
proof -
  from assms obtain mn mx sb g1 rp g2 h g3 where
    lk: "lookup PRICE_RANGES category = Inr (mn, mx)"
    and sb: "randint (int_of_float (fmul (float_of_int mn) lit_0_5))
                     (int_of_float (fmul (float_of_int mn) lit_0_8)) g = Inr (sb, g1)"
    and rp: "randint (int_of_float (fmul (float_of_int mn) lit_0_7))
                     (int_of_float (fmul (float_of_int mn) lit_0_9)) g1 = Inr (rp, g2)"
    and h: "randint mn mx g2 = Inr (h, g3)"
    and pr: "pr = \<lparr>p_starting_bid = sb, p_reserve_price = rp, p_hammer = h,
                   p_reserve_met = (if h \<ge> rp then 1 else 0),
                   p_buyers_premium = int_of_float (fmul (float_of_int h) lit_0_10),
                   p_contract_price = h + int_of_float (fmul (float_of_int h) lit_0_10)\<rparr>"
    unfolding gen_prices_def
    by (auto simp: bindE_Inr_iff Let_def split: prod.splits)
  show "p_buyers_premium pr = int_of_float (fmul (float_of_int (p_hammer pr)) lit_0_10)"
    and "p_contract_price pr = p_hammer pr + p_buyers_premium pr"
    and "p_reserve_met pr = (if p_hammer pr \<ge> p_reserve_price pr then 1 else 0)"
    by (simp_all add: pr)
  have hr: "mn \<le> h" "h \<le> mx" using randint_range[OF h] by simp_all
  have sr: "sb \<le> int_of_float (fmul (float_of_int mn) lit_0_8)"
    using randint_range[OF sb] by simp
  from price_ranges_cases[OF lk] price_range_ints
  have "int_of_float (fmul (float_of_int mn) lit_0_8) < mn \<and> 2000 \<le> mn \<and> mx \<le> 50000"
    by auto
  then show "p_starting_bid pr < p_hammer pr" "2000 \<le> p_hammer pr" "p_hammer pr \<le> 50000"
    using hr sr by (simp_all add: pr)
qed

lemma gen_item_Inr:
  assumes "gen_item sellers buyers d cd st = Inr st'"
  shows "\<exists>it bs fs pr buyer ga gb gc gd ge gf gg.
      s_items st' = s_items st @ [it] \<and> s_bids st' = s_bids st @ bs
      \<and> s_fees st' = s_fees st @ fs \<and> s_item_id st' = s_item_id st + 1
      \<and> i_unique_id it = s_item_id st
      \<and> gen_prices (i_category it) ga = Inr (pr, gb)
      \<and> i_starting_bid it = p_starting_bid pr \<and> i_reserve_price it = p_reserve_price pr
      \<and> i_hammer it = p_hammer pr \<and> i_buyers_premium it = p_buyers_premium pr
      \<and> i_contract_price it = p_contract_price pr \<and> i_reserve_met it = p_reserve_met pr
      \<and> i_buyer_id it = c_customer_id buyer
      \<and> randint 1 15 gc = Inr (i_num_bids it, gd)
      \<and> gen_bids buyers buyer (i_hammer it) d (s_item_id st) (i_num_bids it)
            (i_starting_bid it) (s_bid_id st) gd = Inr (bs, s_bid_id st', ge)
      \<and> gen_fees (s_item_id st) (s_fee_id st) gf = Inr (fs, s_fee_id st', gg)"
  using assms unfolding gen_item_def
  apply (simp add: bindE_Inr_iff Let_def split: prod.splits)
  apply (elim exE conjE)
  apply hypsubst
  apply simp
  apply blast
  done

lemma gen_item_bids:
  assumes "gen_item sellers buyers d cd st = Inr st'"
  shows "\<exists>it bs. s_items st' = s_items st @ [it] \<and> s_bids st' = s_bids st @ bs
      \<and> s_item_id st' = s_item_id st + 1 \<and> i_unique_id it = s_item_id st
      \<and> (\<forall>b\<in>set bs. b_item_id b = s_item_id st)
      \<and> 1 \<le> i_num_bids it \<and> i_num_bids it \<le> 15
      \<and> int (length bs) = i_num_bids it
      \<and> map b_is_winning_bid bs = replicate (length bs - 1) 0 @ [1]
      \<and> b_bid_amount (last bs) = i_hammer it \<and> b_bidder_id (last bs) = i_buyer_id it
      \<and> (\<forall>b\<in>set (butlast bs). i_starting_bid it + 100 \<le> b_bid_amount b)
      \<and> sorted_wrt (<) (map b_bid_amount (butlast bs))
      \<and> (2 \<le> length bs \<longrightarrow> i_starting_bid it + 100 \<le> b_bid_amount (hd bs)
                              \<and> b_bid_amount (hd bs) \<le> i_starting_bid it + 1000)
      \<and> i_starting_bid it < i_hammer it
      \<and> i_buyers_premium it = int_of_float (fmul (float_of_int (i_hammer it)) lit_0_10)
      \<and> i_contract_price it = i_hammer it + i_buyers_premium it
      \<and> i_reserve_met it = (if i_hammer it \<ge> i_reserve_price it then 1 else 0)
      \<and> 2000 \<le> i_hammer it \<and> i_hammer it \<le> 50000"
proof -
  from gen_item_Inr[OF assms] obtain it bs fs pr buyer ga gb gc gd ge gf gg where
    sh: "s_items st' = s_items st @ [it]" "s_bids st' = s_bids st @ bs"
        "s_item_id st' = s_item_id st + 1" "i_unique_id it = s_item_id st"
    and pr: "gen_prices (i_category it) ga = Inr (pr, gb)"
    and f: "i_starting_bid it = p_starting_bid pr" "i_reserve_price it = p_reserve_price pr"
       "i_hammer it = p_hammer pr" "i_buyers_premium it = p_buyers_premium pr"
       "i_contract_price it = p_contract_price pr" "i_reserve_met it = p_reserve_met pr"
       "i_buyer_id it = c_customer_id buyer"
    and nb: "randint 1 15 gc = Inr (i_num_bids it, gd)"
    and gb: "gen_bids buyers buyer (i_hammer it) d (s_item_id st) (i_num_bids it)
            (i_starting_bid it) (s_bid_id st) gd = Inr (bs, s_bid_id st', ge)"
    and "gen_fees (s_item_id st) (s_fee_id st) gf = Inr (fs, s_fee_id st', gg)"
    by blast
  have n: "1 \<le> i_num_bids it" "i_num_bids it \<le> 15" using randint_range[OF nb] by simp_all
  note p = bids_loop_props[OF gb[unfolded gen_bids_def Let_def]]
  have len: "length bs = nat (i_num_bids it)" using p by simp
  then have ne: "bs \<noteq> []" using n by auto
  note g = gen_prices_facts[OF pr]
  show ?thesis
    apply (rule exI[where x = it], rule exI[where x = bs])
    using sh n p ne len g by (simp add: f)
qed

lemma gen_items_later:
  assumes "gen_items n sellers buyers d cd st = Inr st'"
  shows "\<exists>its bs. s_items st' = s_items st @ its \<and> s_bids st' = s_bids st @ bs
           \<and> (\<forall>b\<in>set bs. s_item_id st \<le> b_item_id b) \<and> s_item_id st \<le> s_item_id st'"
  using assms
proof (induction n arbitrary: st)
  case 0
  then show ?case by simp
next
  case (Suc n)
  then obtain st1 where s1: "gen_item sellers buyers d cd st = Inr st1"
    and r: "gen_items n sellers buyers d cd st1 = Inr st'"
    by (auto simp: bindE_Inr_iff)
  from gen_item_bids[OF s1] obtain it bs1 where
    a: "s_items st1 = s_items st @ [it]" "s_bids st1 = s_bids st @ bs1"
       "s_item_id st1 = s_item_id st + 1" "\<forall>b\<in>set bs1. b_item_id b = s_item_id st"
    by blast
  from Suc.IH[OF r] obtain its bs where
    b: "s_items st' = s_items st1 @ its" "s_bids st' = s_bids st1 @ bs"
       "\<forall>b\<in>set bs. s_item_id st1 \<le> b_item_id b" "s_item_id st1 \<le> s_item_id st'"
    by blast
  show ?case
    apply (rule exI[where x = "it # its"], rule exI[where x = "bs1 @ bs"])
    using a b by auto
qed

lemma gen_items_lift:
  assumes step: "\<And>st st'. gen_item sellers buyers d cd st = Inr st' \<Longrightarrow>
        \<exists>it bs. s_items st' = s_items st @ [it] \<and> s_bids st' = s_bids st @ bs
          \<and> s_item_id st' = s_item_id st + 1 \<and> i_unique_id it = s_item_id st
          \<and> (\<forall>b\<in>set bs. b_item_id b = s_item_id st) \<and> Q it bs"
    and run: "gen_items n sellers buyers d cd st = Inr st'"
    and fresh: "\<forall>b\<in>set (s_bids st). b_item_id b < s_item_id st"
    and new: "it \<in> set (drop (length (s_items st)) (s_items st'))"
  shows "Q it (filter (\<lambda>b. b_item_id b = i_unique_id it) (s_bids st'))"
  using run fresh new
proof (induction n arbitrary: st)
  case 0
  then show ?case by simp
next
  case (Suc n)
  then obtain st1 where s1: "gen_item sellers buyers d cd st = Inr st1"
    and r: "gen_items n sellers buyers d cd st1 = Inr st'"
    by (auto simp: bindE_Inr_iff)
  from step[OF s1] obtain it1 bs1 where
    a: "s_items st1 = s_items st @ [it1]" "s_bids st1 = s_bids st @ bs1"
       "s_item_id st1 = s_item_id st + 1" "i_unique_id it1 = s_item_id st"
       "\<forall>b\<in>set bs1. b_item_id b = s_item_id st" "Q it1 bs1"
    by blast
  from gen_items_later[OF r] obtain its bs where
    b: "s_items st' = s_items st1 @ its" "s_bids st' = s_bids st1 @ bs"
       "\<forall>b\<in>set bs. s_item_id st1 \<le> b_item_id b"
    by blast
  have fresh1: "\<forall>b\<in>set (s_bids st1). b_item_id b < s_item_id st1"
    using Suc.prems(2) a by auto
  have new': "it \<in> set (it1 # its)" using Suc.prems(3) a b by simp
  show ?case
  proof (cases "it \<in> set (drop (length (s_items st1)) (s_items st'))")
    case True
    from Suc.IH[OF r fresh1 True] show ?thesis .
  next
    case False
    then have "it \<notin> set its" using b by simp
    then have it: "it = it1" using new' by simp
    have f1: "filter (\<lambda>b. b_item_id b = s_item_id st) (s_bids st) = []"
      using Suc.prems(2) by (auto simp: filter_empty_conv)
    have f2: "filter (\<lambda>b. b_item_id b = s_item_id st) bs1 = bs1"
      using a(5) by (simp add: filter_id_conv)
    have f3: "filter (\<lambda>b. b_item_id b = s_item_id st) bs = []"
      using b(3) a(3) by (auto simp: filter_empty_conv)
    show ?thesis using a(6) by (simp add: it a b f1 f2 f3)
  qed
qed

lemma gen_items_item_origin:
  assumes "gen_items n sellers buyers d cd st = Inr st'"
    and "it \<in> set (drop (length (s_items st)) (s_items st'))"
  shows "\<exists>sa sb. gen_item sellers buyers d cd sa = Inr sb \<and> s_items sb = s_items sa @ [it]"
  using assms
proof (induction n arbitrary: st)
  case 0
  then show ?case by simp
next
  case (Suc n)
  then obtain st1 where s1: "gen_item sellers buyers d cd st = Inr st1"
    and r: "gen_items n sellers buyers d cd st1 = Inr st'"
    by (auto simp: bindE_Inr_iff)
  from gen_item_bids[OF s1] obtain it1 where a: "s_items st1 = s_items st @ [it1]"
    by blast
  from gen_items_later[OF r] obtain its where b: "s_items st' = s_items st1 @ its"
    by blast
  show ?case
  proof (cases "it \<in> set (drop (length (s_items st1)) (s_items st'))")
    case True
    from Suc.IH[OF r True] show ?thesis .
  next
    case False
    then have "it = it1" using Suc.prems(2) a b by simp
    then show ?thesis using s1 a by blast
  qed
qed

lemma filter_winning_last:
  assumes "map f bs = replicate (length bs - 1) 0 @ [1::int]"
  shows "filter (\<lambda>b. f b = 1) bs = [last bs]"
proof -
  from assms have "bs \<noteq> []" by auto
  then obtain xs x where bs: "bs = xs @ [x]" by (cases bs rule: rev_cases) auto
  from assms have m: "map f xs = replicate (length xs) 0" and x: "f x = 1"
    by (simp_all add: bs)
  have "\<forall>b\<in>set xs. f b = 0"
  proof
    fix b assume "b \<in> set xs"
    then have "f b \<in> set (map f xs)" by simp
    then show "f b = 0" unfolding m by simp
  qed
  then have "filter (\<lambda>b. f b = 1) xs = []" by (auto simp: filter_empty_conv)
  then show ?thesis using x by (simp add: bs)
qed

lemma ex_run_value:
  "(case ex_run of Inl e \<Rightarrow> None
    | Inr st' \<Rightarrow> Some (map (\<lambda>it. (i_unique_id it, i_starting_bid it, i_reserve_price it,
                                  i_hammer it, i_buyers_premium it, i_contract_price it,
                                  i_reserve_met it, i_buyer_id it, i_num_bids it))
                          (s_items st'),
                        map (\<lambda>b. (b_item_id b, b_bidder_id b, b_bid_amount b,
                                  b_is_winning_bid b)) (s_bids st')))
   = Some ([(1, 1600, 1400, 2006, 200, 2206, 1, 7, 2),
            (2, 12500, 17500, 25000, 2500, 27500, 1, 7, 1)],
           [(1, 7, 2600, 0), (1, 7, 2006, 1), (2, 7, 25000, 1)])"
  by code_simp

lemma gen_item_winning_bid:
  assumes "gen_item sellers buyers auction_date category_dist sa = Inr sb"
  shows "\<exists>it bs. s_items sb = s_items sa @ [it] \<and> s_bids sb = s_bids sa @ bs
          \<and> s_item_id sb = s_item_id sa + 1 \<and> i_unique_id it = s_item_id sa
          \<and> (\<forall>b\<in>set bs. b_item_id b = s_item_id sa)
          \<and> (int (length bs) = i_num_bids it
            \<and> length (filter (\<lambda>b. b_is_winning_bid b = 1) bs) = 1
            \<and> (\<forall>b\<in>set bs. b_is_winning_bid b = 1 \<longrightarrow>
                  b_bid_amount b = i_hammer it \<and> b_bidder_id b = i_buyer_id it))"
proof -
  let ?Q = "\<lambda>it bs. int (length bs) = i_num_bids it
            \<and> length (filter (\<lambda>b. b_is_winning_bid b = 1) bs) = 1
            \<and> (\<forall>b\<in>set bs. b_is_winning_bid b = 1 \<longrightarrow>
                  b_bid_amount b = i_hammer it \<and> b_bidder_id b = i_buyer_id it)"
  from gen_item_bids[OF assms] obtain it bs where
    a: "s_items sb = s_items sa @ [it]" "s_bids sb = s_bids sa @ bs"
       "s_item_id sb = s_item_id sa + 1" "i_unique_id it = s_item_id sa"
       "\<forall>b\<in>set bs. b_item_id b = s_item_id sa"
    and l: "int (length bs) = i_num_bids it"
    and w: "map b_is_winning_bid bs = replicate (length bs - 1) 0 @ [1]"
    and h: "b_bid_amount (last bs) = i_hammer it" "b_bidder_id (last bs) = i_buyer_id it"
    by blast
  have f: "filter (\<lambda>b. b_is_winning_bid b = 1) bs = [last bs]"
    by (rule filter_winning_last[OF w])
  have "\<forall>b\<in>set bs. b_is_winning_bid b = 1 \<longrightarrow>
          b_bid_amount b = i_hammer it \<and> b_bidder_id b = i_buyer_id it"
  proof (intro ballI impI)
    fix b assume "b \<in> set bs" "b_is_winning_bid b = 1"
    then have "b \<in> set (filter (\<lambda>b. b_is_winning_bid b = 1) bs)" by simp
    then have "b = last bs" unfolding f by simp
    then show "b_bid_amount b = i_hammer it \<and> b_bidder_id b = i_buyer_id it"
      using h by simp
  qed
  then have "?Q it bs" using l f by simp
  then show ?thesis using a by blast
qed

text \<open>
  C1.  Of the items that the item loop generates, each has exactly \<open>num_bids\<close> bids
  under its id, exactly one of them with \<open>is_winning_bid = 1\<close>, and that bid carries
  the hammer price of the item and the id of its buyer.  The loop may start in any
  state whose bids belong to earlier items.
\<close>

theorem every_item_bids:
  assumes "gen_items n sellers buyers auction_date category_dist st = Inr st'"
    and "\<forall>b\<in>set (s_bids st). b_item_id b < s_item_id st"
    and "it \<in> set (drop (length (s_items st)) (s_items st'))"
  shows "let bs = filter (\<lambda>b. b_item_id b = i_unique_id it) (s_bids st')
         in int (length bs) = i_num_bids it
            \<and> length (filter (\<lambda>b. b_is_winning_bid b = 1) bs) = 1
            \<and> (\<forall>b\<in>set bs. b_is_winning_bid b = 1 \<longrightarrow>
                  b_bid_amount b = i_hammer it \<and> b_bidder_id b = i_buyer_id it)"
proof -
  let ?Q = "\<lambda>it bs. int (length bs) = i_num_bids it
            \<and> length (filter (\<lambda>b. b_is_winning_bid b = 1) bs) = 1
            \<and> (\<forall>b\<in>set bs. b_is_winning_bid b = 1 \<longrightarrow>
                  b_bid_amount b = i_hammer it \<and> b_bidder_id b = i_buyer_id it)"
  from gen_items_lift[of sellers buyers auction_date category_dist ?Q,
      OF gen_item_winning_bid assms]
  show ?thesis by (simp add: Let_def)
qed

theorem every_item_bids_witness:
  "(case ex_run of Inl e \<Rightarrow> False
    | Inr st' \<Rightarrow>
        s_bids ex_state = [] \<and> length (s_items ex_state) = 0 \<and> length (s_items st') = 2
        \<and> (let bs = filter (\<lambda>b. b_item_id b = i_unique_id (s_items st' ! 0)) (s_bids st')
           in int (length bs) = i_num_bids (s_items st' ! 0) \<and> length bs = 2
              \<and> length (filter (\<lambda>b. b_is_winning_bid b = 1) bs) = 1
              \<and> (\<forall>b\<in>set bs. b_is_winning_bid b = 1 \<longrightarrow>
                    b_bid_amount b = i_hammer (s_items st' ! 0)
                    \<and> b_bidder_id b = i_buyer_id (s_items st' ! 0))))"
proof -
  from ex_run_value obtain st' where run: "ex_run = Inr st'"
    and items: "length (s_items st') = 2" "i_num_bids (s_items st' ! 0) = 2"
    by (auto split: sum.splits simp: list_eq_iff_nth_eq)
  have fresh: "\<forall>b\<in>set (s_bids ex_state). b_item_id b < s_item_id ex_state"
    by (simp add: ex_state_def)
  have new: "s_items st' ! 0 \<in> set (drop (length (s_items ex_state)) (s_items st'))"
    using items by (simp add: ex_state_def)
  from every_item_bids[OF run[unfolded ex_run_def] fresh new] items
  show ?thesis by (simp add: run ex_state_def Let_def)
qed

lemma ex_run_facts:
  "\<exists>st' i1 i2 b1 b2 b3.
     ex_run = Inr st' \<and> s_items st' = [i1, i2] \<and> s_bids st' = [b1, b2, b3]
     \<and> i_unique_id i1 = 1 \<and> i_unique_id i2 = 2 \<and> i_num_bids i1 = 2 \<and> i_num_bids i2 = 1
     \<and> i_starting_bid i1 = 1600 \<and> i_hammer i1 = 2006
     \<and> i_starting_bid i2 = 12500 \<and> i_hammer i2 = 25000
     \<and> b_item_id b1 = 1 \<and> b_item_id b2 = 1 \<and> b_item_id b3 = 2
     \<and> b_bid_amount b1 = 2600 \<and> b_bid_amount b2 = 2006 \<and> b_bid_amount b3 = 25000
     \<and> b_is_winning_bid b1 = 0 \<and> b_is_winning_bid b2 = 1 \<and> b_is_winning_bid b3 = 1"
proof -
  from ex_run_value obtain st' where run: "ex_run = Inr st'"
    and items: "map (\<lambda>it. (i_unique_id it, i_starting_bid it, i_reserve_price it,
                                  i_hammer it, i_buyers_premium it, i_contract_price it,
                                  i_reserve_met it, i_buyer_id it, i_num_bids it))
                          (s_items st')
       = [(1, 1600, 1400, 2006, 200, 2206, 1, 7, 2),
          (2, 12500, 17500, 25000, 2500, 27500, 1, 7, 1)]"
    and bids: "map (\<lambda>b. (b_item_id b, b_bidder_id b, b_bid_amount b,
                                  b_is_winning_bid b)) (s_bids st')
      = [(1, 7, 2600, 0), (1, 7, 2006, 1), (2, 7, 25000, 1)]"
    by (auto split: sum.splits)
  from items obtain i1 i2 where "s_items st' = [i1, i2]"
    "i_unique_id i1 = 1" "i_unique_id i2 = 2" "i_num_bids i1 = 2" "i_num_bids i2 = 1"
    "i_starting_bid i1 = 1600" "i_hammer i1 = 2006"
    "i_starting_bid i2 = 12500" "i_hammer i2 = 25000"
    by (auto simp: map_eq_Cons_conv)
  moreover from bids obtain b1 b2 b3 where "s_bids st' = [b1, b2, b3]"
    "b_item_id b1 = 1" "b_item_id b2 = 1" "b_item_id b3 = 2"
    "b_bid_amount b1 = 2600" "b_bid_amount b2 = 2006" "b_bid_amount b3 = 25000"
    "b_is_winning_bid b1 = 0" "b_is_winning_bid b2 = 1" "b_is_winning_bid b3 = 1"
    by (auto simp: map_eq_Cons_conv)
  ultimately show ?thesis using run by blast
qed

text \<open>
  C2, as stated, fails: the premium is \<open>int(hammer * 0.10)\<close>, which truncates.  The
  first item of the example has hammer price 2006 and premium 200, and
  \<open>round(2006 * 0.10)\<close> is 201.
\<close>

theorem premium_truncated_not_rounded:
  "(case ex_run of Inl e \<Rightarrow> []
    | Inr st' \<Rightarrow> map (\<lambda>it. (i_hammer it, i_buyers_premium it,
                             py_round (fmul (float_of_int (i_hammer it)) lit_0_10)))
                   (s_items st'))
   = [(2006, 200, 201), (25000, 2500, 2500)]"
  by code_simp

text \<open>
  C2, amended.  For every item the item loop generates, \<open>buyers_premium\<close> is
  \<open>int(hammer * 0.10)\<close>, the tenth of the hammer price rounded down,
  \<open>contract_price\<close> is \<open>hammer + buyers_premium\<close>, and \<open>reserve_met\<close> is 1 exactly
  when \<open>hammer >= reserve_price\<close>.
\<close>

theorem every_item_premium:
  assumes "gen_items n sellers buyers auction_date category_dist st = Inr st'"
    and "it \<in> set (drop (length (s_items st)) (s_items st'))"
  shows "i_buyers_premium it = int_of_float (fmul (float_of_int (i_hammer it)) lit_0_10)
         \<and> i_buyers_premium it = i_hammer it div 10
         \<and> i_contract_price it = i_hammer it + i_buyers_premium it
         \<and> i_reserve_met it = (if i_hammer it \<ge> i_reserve_price it then 1 else 0)"
proof -
  from gen_items_item_origin[OF assms] obtain sa sb where
    g: "gen_item sellers buyers auction_date category_dist sa = Inr sb"
    and i: "s_items sb = s_items sa @ [it]"
    by blast
  from gen_item_bids[OF g] i have
    p: "i_buyers_premium it = int_of_float (fmul (float_of_int (i_hammer it)) lit_0_10)"
      "i_contract_price it = i_hammer it + i_buyers_premium it"
      "i_reserve_met it = (if i_hammer it \<ge> i_reserve_price it then 1 else 0)"
      "2000 \<le> i_hammer it" "i_hammer it \<le> 50000"
    by auto
  have "int_of_float (fmul (float_of_int (i_hammer it)) lit_0_10) = i_hammer it div 10"
    using p(4,5) by (intro int_tenth_trunc) simp_all
  then show ?thesis using p by simp
qed

theorem every_item_premium_witness:
  "(case ex_run of Inl e \<Rightarrow> False
    | Inr st' \<Rightarrow>
        length (s_items ex_state) = 0 \<and> length (s_items st') = 2
        \<and> i_hammer (s_items st' ! 0) = 2006
        \<and> i_buyers_premium (s_items st' ! 0) = i_hammer (s_items st' ! 0) div 10
        \<and> i_contract_price (s_items st' ! 0)
            = i_hammer (s_items st' ! 0) + i_buyers_premium (s_items st' ! 0)
        \<and> i_reserve_met (s_items st' ! 0)
            = (if i_hammer (s_items st' ! 0) \<ge> i_reserve_price (s_items st' ! 0)
               then 1 else 0))"
proof -
  from ex_run_value obtain st' where run: "ex_run = Inr st'"
    and items: "length (s_items st') = 2" "i_hammer (s_items st' ! 0) = 2006"
    by (auto split: sum.splits simp: list_eq_iff_nth_eq)
  have new: "s_items st' ! 0 \<in> set (drop (length (s_items ex_state)) (s_items st'))"
    using items by (simp add: ex_state_def)
  from every_item_premium[OF run[unfolded ex_run_def] new] items
  show ?thesis by (simp add: run ex_state_def)
qed

text \<open>
  C3, as stated, fails: the last bid is set to the hammer price whatever the bids
  before it have reached.  The first item of the example has the bids 2600 and 2006.
\<close>

theorem bid_amounts_not_increasing:
  "(case ex_run of Inl e \<Rightarrow> []
    | Inr st' \<Rightarrow> map b_bid_amount (filter (\<lambda>b. b_item_id b = 1) (s_bids st')))
     = [2600, 2006]
   \<and> \<not> sorted_wrt (<) [2600, 2006 :: int]"
proof -
  from ex_run_facts obtain st' i1 i2 b1 b2 b3 where run: "ex_run = Inr st'"
    and f: "s_items st' = [i1, i2]"
      "s_bids st' = [b1, b2, b3]" "b_item_id b1 = 1" "b_item_id b2 = 1" "b_item_id b3 = 2"
      "b_bid_amount b1 = 2600" "b_bid_amount b2 = 2006"
    by blast
  show ?thesis by (simp add: run f)
qed

lemma gen_item_bid_amounts:
  assumes "gen_item sellers buyers auction_date category_dist sa = Inr sb"
  shows "\<exists>it bs. s_items sb = s_items sa @ [it] \<and> s_bids sb = s_bids sa @ bs
          \<and> s_item_id sb = s_item_id sa + 1 \<and> i_unique_id it = s_item_id sa
          \<and> (\<forall>b\<in>set bs. b_item_id b = s_item_id sa)
          \<and> (sorted_wrt (<) (map b_bid_amount (butlast bs))
            \<and> (\<forall>b\<in>set (butlast bs). i_starting_bid it < b_bid_amount b)
            \<and> bs \<noteq> [] \<and> b_bid_amount (last bs) = i_hammer it)"
proof -
  let ?Q = "\<lambda>it bs. sorted_wrt (<) (map b_bid_amount (butlast bs))
            \<and> (\<forall>b\<in>set (butlast bs). i_starting_bid it < b_bid_amount b)
            \<and> bs \<noteq> [] \<and> b_bid_amount (last bs) = i_hammer it"
  from gen_item_bids[OF assms] obtain it bs where
    a: "s_items sb = s_items sa @ [it]" "s_bids sb = s_bids sa @ bs"
       "s_item_id sb = s_item_id sa + 1" "i_unique_id it = s_item_id sa"
       "\<forall>b\<in>set bs. b_item_id b = s_item_id sa"
    and l: "int (length bs) = i_num_bids it" "1 \<le> i_num_bids it"
    and s: "sorted_wrt (<) (map b_bid_amount (butlast bs))"
    and m: "\<forall>b\<in>set (butlast bs). i_starting_bid it + 100 \<le> b_bid_amount b"
    and h: "b_bid_amount (last bs) = i_hammer it"
    by blast
  have "bs \<noteq> []" using l by auto
  moreover have "\<forall>b\<in>set (butlast bs). i_starting_bid it < b_bid_amount b"
    using m by auto
  ultimately have "?Q it bs" using s h by simp
  then show ?thesis using a by blast
qed

text \<open>
  C3, amended.  For every item the item loop generates, the amounts of its bids but the
  last are strictly increasing in emission order and each is above the starting bid;
  the last bid, the winning one, has the hammer price as its amount, which need not be
  above the bids before it.
\<close>

theorem every_item_bid_amounts:
  assumes "gen_items n sellers buyers auction_date category_dist st = Inr st'"
    and "\<forall>b\<in>set (s_bids st). b_item_id b < s_item_id st"
    and "it \<in> set (drop (length (s_items st)) (s_items st'))"
  shows "let bs = filter (\<lambda>b. b_item_id b = i_unique_id it) (s_bids st')
         in sorted_wrt (<) (map b_bid_amount (butlast bs))
            \<and> (\<forall>b\<in>set (butlast bs). i_starting_bid it < b_bid_amount b)
            \<and> bs \<noteq> [] \<and> b_bid_amount (last bs) = i_hammer it"
proof -
  let ?Q = "\<lambda>it bs. sorted_wrt (<) (map b_bid_amount (butlast bs))
            \<and> (\<forall>b\<in>set (butlast bs). i_starting_bid it < b_bid_amount b)
            \<and> bs \<noteq> [] \<and> b_bid_amount (last bs) = i_hammer it"
  from gen_items_lift[of sellers buyers auction_date category_dist ?Q,
      OF gen_item_bid_amounts assms]
  show ?thesis by (simp add: Let_def)
qed

theorem every_item_bid_amounts_witness:
  "(case ex_run of Inl e \<Rightarrow> False
    | Inr st' \<Rightarrow>
        s_bids ex_state = [] \<and> length (s_items ex_state) = 0 \<and> length (s_items st') = 2
        \<and> (let bs = filter (\<lambda>b. b_item_id b = i_unique_id (s_items st' ! 0)) (s_bids st')
           in length bs = 2
              \<and> sorted_wrt (<) (map b_bid_amount (butlast bs))
              \<and> (\<forall>b\<in>set (butlast bs). i_starting_bid (s_items st' ! 0) < b_bid_amount b)
              \<and> bs \<noteq> [] \<and> b_bid_amount (last bs) = i_hammer (s_items st' ! 0)))"
proof -
  from ex_run_facts obtain st' i1 i2 b1 b2 b3 where run: "ex_run = Inr st'"
    and f: "s_items st' = [i1, i2]" "s_bids st' = [b1, b2, b3]" "i_unique_id i1 = 1"
      "b_item_id b1 = 1" "b_item_id b2 = 1" "b_item_id b3 = 2"
    by blast
  have fresh: "\<forall>b\<in>set (s_bids ex_state). b_item_id b < s_item_id ex_state"
    by (simp add: ex_state_def)
  have new: "s_items st' ! 0 \<in> set (drop (length (s_items ex_state)) (s_items st'))"
    using f by (simp add: ex_state_def)
  from every_item_bid_amounts[OF run[unfolded ex_run_def] fresh new] f
  show ?thesis by (simp add: run ex_state_def Let_def)
qed

lemma gen_item_first_bid:
  assumes "gen_item sellers buyers auction_date category_dist sa = Inr sb"
  shows "\<exists>it bs. s_items sb = s_items sa @ [it] \<and> s_bids sb = s_bids sa @ bs
          \<and> s_item_id sb = s_item_id sa + 1 \<and> i_unique_id it = s_item_id sa
          \<and> (\<forall>b\<in>set bs. b_item_id b = s_item_id sa)
          \<and> ((2 \<le> i_num_bids it \<longrightarrow>
               i_starting_bid it + 100 \<le> b_bid_amount (hd bs)
               \<and> b_bid_amount (hd bs) \<le> i_starting_bid it + 1000)
            \<and> (\<forall>b\<in>set bs. b_is_winning_bid b \<noteq> 1 \<longrightarrow> i_starting_bid it < b_bid_amount b)
            \<and> (i_num_bids it = 1 \<longrightarrow>
                 map b_bid_amount bs = [i_hammer it] \<and> i_hammer it \<noteq> i_starting_bid it))"
proof -
  let ?Q = "\<lambda>it bs. (2 \<le> i_num_bids it \<longrightarrow>
               i_starting_bid it + 100 \<le> b_bid_amount (hd bs)
               \<and> b_bid_amount (hd bs) \<le> i_starting_bid it + 1000)
            \<and> (\<forall>b\<in>set bs. b_is_winning_bid b \<noteq> 1 \<longrightarrow> i_starting_bid it < b_bid_amount b)
            \<and> (i_num_bids it = 1 \<longrightarrow>
                 map b_bid_amount bs = [i_hammer it] \<and> i_hammer it \<noteq> i_starting_bid it)"
  from gen_item_bids[OF assms] obtain it bs where
    a: "s_items sb = s_items sa @ [it]" "s_bids sb = s_bids sa @ bs"
       "s_item_id sb = s_item_id sa + 1" "i_unique_id it = s_item_id sa"
       "\<forall>b\<in>set bs. b_item_id b = s_item_id sa"
    and l: "int (length bs) = i_num_bids it" "1 \<le> i_num_bids it"
    and w: "map b_is_winning_bid bs = replicate (length bs - 1) 0 @ [1]"
    and m: "\<forall>b\<in>set (butlast bs). i_starting_bid it + 100 \<le> b_bid_amount b"
    and f: "2 \<le> length bs \<longrightarrow> i_starting_bid it + 100 \<le> b_bid_amount (hd bs)
                            \<and> b_bid_amount (hd bs) \<le> i_starting_bid it + 1000"
    and h: "b_bid_amount (last bs) = i_hammer it" "i_starting_bid it < i_hammer it"
    by blast
  have ne: "bs \<noteq> []" using l by auto
  then have bl: "bs = butlast bs @ [last bs]" by simp
  have wl: "b_is_winning_bid (last bs) = 1"
    using w ne by (metis last_map last_snoc)
  have q1: "2 \<le> i_num_bids it \<longrightarrow>
             i_starting_bid it + 100 \<le> b_bid_amount (hd bs)
             \<and> b_bid_amount (hd bs) \<le> i_starting_bid it + 1000"
    using f l by auto
  have q2: "\<forall>b\<in>set bs. b_is_winning_bid b \<noteq> 1 \<longrightarrow> i_starting_bid it < b_bid_amount b"
  proof (intro ballI impI)
    fix b assume b: "b \<in> set bs" "b_is_winning_bid b \<noteq> 1"
    then have "b \<noteq> last bs" using wl by auto
    then have "b \<in> set (butlast bs)" using b(1) bl
      by (metis Un_iff empty_iff insert_iff list.set(1) list.set(2) set_append)
    then show "i_starting_bid it < b_bid_amount b" using m by auto
  qed
  have q3: "i_num_bids it = 1 \<longrightarrow>
               map b_bid_amount bs = [i_hammer it] \<and> i_hammer it \<noteq> i_starting_bid it"
  proof
    assume "i_num_bids it = 1"
    then have "length bs = 1" using l by simp
    then have "bs = [last bs]" by (cases bs) simp_all
    then have "map b_bid_amount bs = [b_bid_amount (last bs)]"
      by (metis list.simps(8) list.simps(9))
    then show "map b_bid_amount bs = [i_hammer it] \<and> i_hammer it \<noteq> i_starting_bid it"
      using h by simp
  qed
  show ?thesis
    by (rule exI[of _ it], rule exI[of _ bs]) (use a q1 q2 q3 in blast)
qed

text \<open>
  C9.  For every item the item loop generates: with two bids or more, the amount of the
  first bid is the starting bid plus an increment of \<open>[100, 1000]\<close>; no bid other than
  the winning one has the starting bid as its amount (each is above it); with a single
  bid, that bid has the hammer price as its amount, and the hammer price is not the
  starting bid.
\<close>

theorem every_item_first_bid:
  assumes "gen_items n sellers buyers auction_date category_dist st = Inr st'"
    and "\<forall>b\<in>set (s_bids st). b_item_id b < s_item_id st"
    and "it \<in> set (drop (length (s_items st)) (s_items st'))"
  shows "let bs = filter (\<lambda>b. b_item_id b = i_unique_id it) (s_bids st')
         in (2 \<le> i_num_bids it \<longrightarrow>
               i_starting_bid it + 100 \<le> b_bid_amount (hd bs)
               \<and> b_bid_amount (hd bs) \<le> i_starting_bid it + 1000)
            \<and> (\<forall>b\<in>set bs. b_is_winning_bid b \<noteq> 1 \<longrightarrow> i_starting_bid it < b_bid_amount b)
            \<and> (i_num_bids it = 1 \<longrightarrow>
                 map b_bid_amount bs = [i_hammer it] \<and> i_hammer it \<noteq> i_starting_bid it)"
proof -
  let ?Q = "\<lambda>it bs. (2 \<le> i_num_bids it \<longrightarrow>
               i_starting_bid it + 100 \<le> b_bid_amount (hd bs)
               \<and> b_bid_amount (hd bs) \<le> i_starting_bid it + 1000)
            \<and> (\<forall>b\<in>set bs. b_is_winning_bid b \<noteq> 1 \<longrightarrow> i_starting_bid it < b_bid_amount b)
            \<and> (i_num_bids it = 1 \<longrightarrow>
                 map b_bid_amount bs = [i_hammer it] \<and> i_hammer it \<noteq> i_starting_bid it)"
  from gen_items_lift[of sellers buyers auction_date category_dist ?Q,
      OF gen_item_first_bid assms]
  show ?thesis by (simp add: Let_def)
qed

theorem every_item_first_bid_witness:
  "(case ex_run of Inl e \<Rightarrow> False
    | Inr st' \<Rightarrow>
        s_bids ex_state = [] \<and> length (s_items ex_state) = 0 \<and> length (s_items st') = 2
        \<and> i_num_bids (s_items st' ! 0) = 2 \<and> i_num_bids (s_items st' ! 1) = 1
        \<and> (let bs = filter (\<lambda>b. b_item_id b = i_unique_id (s_items st' ! 0)) (s_bids st')
           in i_starting_bid (s_items st' ! 0) + 100 \<le> b_bid_amount (hd bs)
              \<and> b_bid_amount (hd bs) \<le> i_starting_bid (s_items st' ! 0) + 1000
              \<and> b_is_winning_bid (hd bs) \<noteq> 1
              \<and> i_starting_bid (s_items st' ! 0) < b_bid_amount (hd bs))
        \<and> (let bs = filter (\<lambda>b. b_item_id b = i_unique_id (s_items st' ! 1)) (s_bids st')
           in map b_bid_amount bs = [i_hammer (s_items st' ! 1)]
              \<and> i_hammer (s_items st' ! 1) \<noteq> i_starting_bid (s_items st' ! 1)))"
proof -
  from ex_run_facts obtain st' i1 i2 b1 b2 b3 where run: "ex_run = Inr st'"
    and f: "s_items st' = [i1, i2]" "s_bids st' = [b1, b2, b3]"
      "i_unique_id i1 = 1" "i_unique_id i2 = 2" "i_num_bids i1 = 2" "i_num_bids i2 = 1"
      "b_item_id b1 = 1" "b_item_id b2 = 1" "b_item_id b3 = 2"
      "b_is_winning_bid b1 = 0"
    by blast
  have fresh: "\<forall>b\<in>set (s_bids ex_state). b_item_id b < s_item_id ex_state"
    by (simp add: ex_state_def)
  have new0: "s_items st' ! 0 \<in> set (drop (length (s_items ex_state)) (s_items st'))"
    and new1: "s_items st' ! 1 \<in> set (drop (length (s_items ex_state)) (s_items st'))"
    using f by (simp_all add: ex_state_def)
  from every_item_first_bid[OF run[unfolded ex_run_def] fresh new0]
    every_item_first_bid[OF run[unfolded ex_run_def] fresh new1] f
  show ?thesis by (simp add: run ex_state_def Let_def)
qed

section \<open>The state sampler\<close>

lemma bit_length_lower: "0 < n \<Longrightarrow> 2 ^ (bit_length n - 1) \<le> n"
proof (induction n rule: bit_length.induct)
  case (1 n)
  show ?case
  proof (cases "n div 2 \<le> 0")
    case True
    then have "n = 1" using 1(2) by simp
    then show ?thesis by (simp add: bit_length.simps)
  next
    case False
    then have p: "0 < n div 2" by simp
    have ih: "2 ^ (bit_length (n div 2) - 1) \<le> n div 2" using 1(1)[OF _ p] 1(2) by simp
    have pos: "0 < bit_length (n div 2)" using p by (subst bit_length.simps) simp
    have "bit_length n = Suc (bit_length (n div 2))"
      using 1(2) by (subst bit_length.simps) simp
    then have "(2::int) ^ (bit_length n - 1) = 2 * 2 ^ (bit_length (n div 2) - 1)"
      using pos by (cases "bit_length (n div 2)") simp_all
    also have "\<dots> \<le> 2 * (n div 2)" using ih by simp
    also have "\<dots> \<le> n" by simp
    finally show ?thesis .
  qed
qed

lemma fmul_unit_bounds:
  assumes k: "0 \<le> k" "k < 2 ^ 53" and t: "0 < t"
  shows "\<exists>num. fmul (Dy k 53) (Dy t 0) = Dy num 53 \<and> 0 \<le> num \<and> num < t * 2 ^ 53"
proof -
  define q where "q = k * t"
  have q0: "0 \<le> q" using k t by (simp add: q_def)
  have "k + 1 \<le> 2 ^ 53" using k by simp
  then have "(k + 1) * t \<le> 2 ^ 53 * t" using t by (intro mult_right_mono) simp_all
  then have qt: "q + t \<le> t * 2 ^ 53" by (simp add: q_def algebra_simps)
  have f: "fmul (Dy k 53) (Dy t 0) = fround (Dy q 53)" by (simp add: q_def)
  show ?thesis
  proof (cases "bit_length \<bar>q\<bar> \<le> 53")
    case True
    then show ?thesis using f q0 qt t by simp
  next
    case False
    define s where "s = bit_length q - 53"
    have s1: "1 \<le> s" using False q0 by (simp add: s_def)
    have qpos: "0 < q" using False q0 by (cases "q = 0") (simp_all add: bit_length.simps)
    define num where "num = round_shift q s * 2 ^ s"
    have fr: "fround (Dy q 53) = Dy num 53"
      using False qpos by (simp add: Let_def s_def num_def)
    have bl: "bit_length q - 1 = s + 52" using False q0 by (simp add: s_def)
    have "(2::int) ^ (s + 52) \<le> q" using bit_length_lower[OF qpos] unfolding bl .
    also have "q < t * 2 ^ 53" using qt t by simp
    finally have lt: "(2::int) ^ (s + 52) < t * 2 ^ 53" .
    have "s + 52 = (s - 1) + 53" using s1 by simp
    then have "(2::int) ^ (s + 52) = 2 ^ (s - 1) * 2 ^ 53" by (simp only: power_add)
    then have "(2::int) ^ (s - 1) * 2 ^ 53 < t * 2 ^ 53" using lt by simp
    then have half: "(2::int) ^ (s - 1) < t" by simp
    have two: "(2::int) ^ s = 2 * 2 ^ (s - 1)" using s1 by (cases s) simp_all
    define r where "r = q mod 2 ^ s"
    have dm: "q div 2 ^ s * 2 ^ s + r = q" unfolding r_def by (rule div_mult_mod_eq)
    have r0: "0 \<le> r" by (simp add: r_def)
    have "0 \<le> q div 2 ^ s" using q0 by (simp add: pos_imp_zdiv_nonneg_iff)
    then have "0 \<le> round_shift q s" using round_shift_bounds[of q s] by linarith
    then have n0: "0 \<le> num" unfolding num_def by simp
    have up: "num < t * 2 ^ 53"
    proof (cases "round_shift q s = q div 2 ^ s")
      case True
      then have "num \<le> q" using dm r0 by (simp add: num_def)
      then show ?thesis using qt t by simp
    next
      case False
      then have rs: "round_shift q s = q div 2 ^ s + 1" and big: "2 ^ s \<le> 2 * r"
        by (auto simp: round_shift_def Let_def r_def split: if_splits)
      have "num = q div 2 ^ s * 2 ^ s + 2 ^ s" by (simp add: num_def rs algebra_simps)
      also have "\<dots> = q - r + 2 ^ s" using dm by simp
      also have "\<dots> \<le> q + 2 ^ (s - 1)" using big two by simp
      also have "\<dots> < q + t" using half by simp
      finally show ?thesis using qt by simp
    qed
    show ?thesis using f fr n0 up by simp
  qed
qed

lemma bisect_spec:
  assumes "lo \<le> hi"
  shows "lo \<le> bisect a x lo hi \<and> bisect a x lo hi \<le> hi
     \<and> (bisect a x lo hi = lo \<or> \<not> fless x (a ! (bisect a x lo hi - 1)))
     \<and> (bisect a x lo hi = hi \<or> fless x (a ! bisect a x lo hi))"
  using assms
proof (induction a x lo hi rule: bisect.induct)
  case (1 a x lo hi)
  show ?case
  proof (cases "lo < hi")
    case False
    then show ?thesis using 1(3) by (subst (1 2 3 4 5 6) bisect.simps) simp
  next
    case True
    let ?mid = "(lo + hi) div 2"
    have m: "lo \<le> ?mid" "?mid < hi" using True by simp_all
    show ?thesis
    proof (cases "fless x (a ! ?mid)")
      case T: True
      have e: "bisect a x lo hi = bisect a x lo ?mid"
        using True T by (subst bisect.simps) (simp add: Let_def)
      from 1(1)[OF True refl T m(1)]
      show ?thesis unfolding e using m T by auto
    next
      case F: False
      have e: "bisect a x lo hi = bisect a x (?mid + 1) hi"
        using True F by (subst bisect.simps) (simp add: Let_def)
      have le: "?mid + 1 \<le> hi" using m by simp
      from 1(2)[OF True refl F le]
      show ?thesis unfolding e using m F by auto
    qed
  qed
qed

lemma accumulate_from_nth:
  "i < length xs \<Longrightarrow> accumulate_from (+) acc xs ! i = acc + sum_list (take (Suc i) xs)"
  for acc :: int
proof (induction xs arbitrary: acc i)
  case Nil
  then show ?case by simp
next
  case (Cons x xs)
  then show ?case by (cases i) (simp_all add: add.assoc)
qed

lemma length_accumulate_from [simp]: "length (accumulate_from f acc xs) = length xs"
  by (induction xs arbitrary: acc) simp_all

lemma length_accumulate [simp]: "length (accumulate f xs) = length xs"
  by (cases xs) simp_all

lemma accumulate_nth:
  fixes xs :: "int list"
  assumes "i < length xs"
  shows "accumulate (+) xs ! i = sum_list (take (Suc i) xs)"
proof (cases xs)
  case Nil
  then show ?thesis using assms by simp
next
  case (Cons x ys)
  then show ?thesis using assms by (cases i) (simp_all add: accumulate_from_nth)
qed

lemma sum_take_Suc:
  "i < length ws \<Longrightarrow> sum_list (take (Suc i) ws) = sum_list (take i ws) + ws ! i"
  for ws :: "int list"
  by (simp add: take_Suc_conv_app_nth)

lemma sum_take_bounds:
  fixes ws :: "int list"
  assumes "\<forall>w\<in>set ws. 0 \<le> w"
  shows "0 \<le> sum_list (take k ws) \<and> sum_list (take k ws) \<le> sum_list ws"
proof -
  have a: "0 \<le> sum_list (take k ws)"
    by (rule sum_list_nonneg) (use assms in \<open>auto dest: in_set_takeD\<close>)
  have b: "0 \<le> sum_list (drop k ws)"
    by (rule sum_list_nonneg) (use assms in \<open>auto dest: in_set_dropD\<close>)
  have "sum_list ws = sum_list (take k ws) + sum_list (drop k ws)"
    by (metis append_take_drop_id sum_list_append)
  then show ?thesis using a b by simp
qed

lemma float_of_int_sum_take:
  fixes ws :: "int list"
  assumes "\<forall>w\<in>set ws. 0 \<le> w" and "sum_list ws < 2 ^ 53"
  shows "float_of_int (sum_list (take k ws)) = Dy (sum_list (take k ws)) 0"
  using sum_take_bounds[OF assms(1), of k] assms(2) by (intro float_of_int_small) simp

lemma choices_int_positive:
  assumes c: "choices_int population weights g = Inr (p, g')"
    and nn: "\<forall>w\<in>set weights. 0 \<le> w" and sm: "sum_list weights < 2 ^ 53"
  shows "\<exists>i<length weights. length population = length weights
            \<and> p = population ! i \<and> 0 < weights ! i"
proof -
  obtain f j where g: "g = Rng f j" by (cases g)
  define n where "n = length population"
  define cum where "cum = map float_of_int (accumulate (+) weights)"
  define t where "t = sum_list weights"
  define k where "k = f j mod 2 ^ 53"
  define x where "x = fmul (Dy k 53) (Dy t 0)"
  define r where "r = bisect cum x 0 (n - 1)"
  have t0: "0 \<le> t" unfolding t_def using nn by (simp add: sum_list_nonneg)
  have ft: "float_of_int (sum_list weights) = Dy (sum_list weights) 0"
    using t0 sm by (intro float_of_int_small) (simp add: t_def)
  have "\<bar>t\<bar> < 2 ^ 53" using t0 sm by (simp add: t_def)
  then have blt: "bit_length \<bar>t\<bar> \<le> 53" by (rule bit_length_le)
  from c have c': "choices_cum population cum g = Inr (p, g')"
    by (simp add: choices_int_def cum_def)
  have lc: "length cum = length weights" by (simp add: cum_def)
  from c' have len: "length weights = n" and cne: "cum \<noteq> []"
    by (auto simp: choices_cum_def Let_def n_def lc split: if_splits)
  have npos: "0 < n" using len cne lc by auto
  then have ne: "weights \<noteq> []" using len by auto
  have lastc: "last cum = Dy t 0"
  proof -
    have "last cum = cum ! (n - 1)" using cne lc len by (simp add: last_conv_nth)
    also have "\<dots> = Dy (sum_list (take (Suc (n - 1)) weights)) 0"
      using npos len by (simp add: cum_def accumulate_nth float_of_int_sum_take[OF nn sm] ft)
    also have "Suc (n - 1) = n" using npos by simp
    finally show ?thesis using len by (simp add: t_def)
  qed
  have tot: "fadd (last cum) lit_0_0 = Dy t 0"
    using blt by (simp add: lastc lit_0_0_def)
  have ru: "random_unit g = (Dy k 53, Rng f (Suc j))"
    by (simp add: random_unit_def g k_def)
  from c' have tpos: "0 < t" and res: "r < n" "p = population ! r"
    unfolding choices_cum_def Let_def tot ru n_def[symmetric] prod.case
      x_def[symmetric] r_def[symmetric]
    by (simp_all add: lit_0_0_def lc len split: if_splits)
  have kb: "0 \<le> k" "k < 2 ^ 53" by (simp_all add: k_def)
  from fmul_unit_bounds[OF kb tpos] obtain num where
    x: "x = Dy num 53" and num: "0 \<le> num" "num < t * 2 ^ 53"
    unfolding x_def by blast
  have cn: "cum ! i = Dy (sum_list (take (Suc i) weights)) 0" if "i < n" for i
    using that len by (simp add: cum_def accumulate_nth float_of_int_sum_take[OF nn sm])
  have fl: "fless x (cum ! i) \<longleftrightarrow> num < sum_list (take (Suc i) weights) * 2 ^ 53"
    if "i < n" for i
    using cn[OF that] by (simp add: x)
  from bisect_spec[of 0 "n - 1" cum x]
  have A: "r = 0 \<or> \<not> fless x (cum ! (r - 1))" and B: "r = n - 1 \<or> fless x (cum ! r)"
    by (simp_all add: r_def)
  have upper: "num < sum_list (take (Suc r) weights) * 2 ^ 53"
  proof (cases "r = n - 1")
    case True
    then have "Suc r = n" using npos by simp
    then show ?thesis using num len by (simp add: t_def)
  next
    case False
    then show ?thesis using B fl[OF res(1)] by simp
  qed
  have st: "sum_list (take (Suc r) weights) = sum_list (take r weights) + weights ! r"
    using res(1) len by (intro sum_take_Suc) simp
  have lower: "sum_list (take r weights) * 2 ^ 53 \<le> num"
  proof (cases "r = 0")
    case True
    then show ?thesis using num by simp
  next
    case False
    then have r1: "r - 1 < n" "Suc (r - 1) = r" using res(1) by simp_all
    from False A have "\<not> fless x (cum ! (r - 1))" by simp
    then show ?thesis using fl[OF r1(1)] r1(2) by simp
  qed
  have "sum_list (take r weights) * 2 ^ 53 < (sum_list (take r weights) + weights ! r) * 2 ^ 53"
    using lower upper st by simp
  then have "0 < weights ! r" by simp
  then show ?thesis using res len by (auto simp: n_def)
qed



lemma sum_list_nonneg_eq_0:
  fixes xs :: "int list"
  assumes "\<forall>x\<in>set xs. 0 \<le> x"
  shows "sum_list xs = 0 \<longleftrightarrow> (\<forall>x\<in>set xs. x = 0)"
  using assms by (simp add: sum_list_nonneg_eq_0_iff)

lemma remaining_exhausted_iff:
  "sum_list (map snd (remaining_states items_by_state)) = 0
     \<longleftrightarrow> (\<forall>(s, target)\<in>set STATE_DISTRIBUTION. target \<le> items_by_state s)"
proof -
  have nn: "\<forall>x\<in>set (map snd (remaining_states items_by_state)). 0 \<le> x"
    by (auto simp: remaining_states_def)
  show ?thesis
    unfolding sum_list_nonneg_eq_0[OF nn]
    by (auto simp: remaining_states_def max_def split: if_splits)
qed

lemma remaining_sum_bound:
  assumes "\<forall>s. 0 \<le> items_by_state s"
  shows "sum_list (map snd (remaining_states items_by_state)) < 2 ^ 53"
proof -
  have "sum_list (map snd (remaining_states items_by_state))
          = sum_list (map (\<lambda>(s, target). max 0 (target - items_by_state s)) STATE_DISTRIBUTION)"
    by (simp add: remaining_states_def comp_def case_prod_unfold)
  also have "\<dots> \<le> sum_list (map (\<lambda>(s, target). max 0 target) STATE_DISTRIBUTION)"
  proof (rule sum_list_mono)
    fix x :: "string \<times> int"
    obtain s target where x: "x = (s, target)" by (cases x)
    have "0 \<le> items_by_state s" using assms by simp
    then show "(case x of (s, target) \<Rightarrow> max 0 (target - items_by_state s))
                 \<le> (case x of (s, target) \<Rightarrow> max 0 target)"
      by (simp add: x max_def)
  qed
  also have "\<dots> = 24200" by (simp add: STATE_DISTRIBUTION_def)
  finally show ?thesis by simp
qed

lemma pick_state_in_quota:
  assumes nn0: "\<forall>s. 0 \<le> items_by_state s"
    and q: "\<exists>(s, target)\<in>set STATE_DISTRIBUTION. items_by_state s < target"
    and p: "pick_state items_by_state g = Inr (state, g')"
  shows "\<exists>target. map_of STATE_DISTRIBUTION state = Some target
                      \<and> items_by_state state < target"
proof -
  let ?r = "remaining_states items_by_state"
  from q obtain s0 t0 where "(s0, t0) \<in> set STATE_DISTRIBUTION" "items_by_state s0 < t0"
    by auto
  then have "\<not> (\<forall>(s, target)\<in>set STATE_DISTRIBUTION. target \<le> items_by_state s)"
    by (auto simp: not_le intro!: bexI[of _ "(s0, t0)"])
  then have "sum_list (map snd ?r) \<noteq> 0" by (simp add: remaining_exhausted_iff)
  then have c: "choices_int (map fst ?r) (map snd ?r) g = Inr (state, g')"
    using p by (simp add: pick_state_def Let_def)
  have nn: "\<forall>w\<in>set (map snd ?r). 0 \<le> w" by (auto simp: remaining_states_def)
  from choices_int_positive[OF c nn remaining_sum_bound[OF nn0]]
  obtain i where i: "i < length ?r" "state = map fst ?r ! i" "0 < map snd ?r ! i"
    by auto
  have li: "i < length STATE_DISTRIBUTION" using i(1) by (simp add: remaining_states_def)
  obtain s target where st: "STATE_DISTRIBUTION ! i = (s, target)"
    by (cases "STATE_DISTRIBUTION ! i")
  have "state = s" using i(2) li st by (simp add: remaining_states_def)
  moreover have "items_by_state s < target"
    using i(3) li st by (simp add: remaining_states_def max_def split: if_splits)
  moreover have "map_of STATE_DISTRIBUTION s = Some target"
  proof (rule map_of_is_SomeI)
    show "distinct (map fst STATE_DISTRIBUTION)" by (simp add: STATE_DISTRIBUTION_def)
    show "(s, target) \<in> set STATE_DISTRIBUTION" using li st by (metis nth_mem)
  qed
  ultimately show ?thesis
    by simp
qed








section \<open>The whole run\<close>

lemma gen_items_range:
  assumes "gen_items n sellers buyers d cd st = Inr st'"
  shows "\<exists>its bs. s_items st' = s_items st @ its \<and> s_bids st' = s_bids st @ bs
           \<and> (\<forall>b\<in>set bs. s_item_id st \<le> b_item_id b \<and> b_item_id b < s_item_id st')
           \<and> (\<forall>it\<in>set its. s_item_id st \<le> i_unique_id it \<and> i_unique_id it < s_item_id st')
           \<and> s_item_id st \<le> s_item_id st'"
  using assms
proof (induction n arbitrary: st)
  case 0
  then show ?case by simp
next
  case (Suc n)
  then obtain st1 where s1: "gen_item sellers buyers d cd st = Inr st1"
    and r: "gen_items n sellers buyers d cd st1 = Inr st'"
    by (auto simp: bindE_Inr_iff)
  from gen_item_bids[OF s1] obtain it bs1 where
    a: "s_items st1 = s_items st @ [it]" "s_bids st1 = s_bids st @ bs1"
       "s_item_id st1 = s_item_id st + 1" "i_unique_id it = s_item_id st"
       "\<forall>b\<in>set bs1. b_item_id b = s_item_id st"
    by blast
  from Suc.IH[OF r] obtain its bs where
    b: "s_items st' = s_items st1 @ its" "s_bids st' = s_bids st1 @ bs"
       "\<forall>b\<in>set bs. s_item_id st1 \<le> b_item_id b \<and> b_item_id b < s_item_id st'"
       "\<forall>it\<in>set its. s_item_id st1 \<le> i_unique_id it \<and> i_unique_id it < s_item_id st'"
       "s_item_id st1 \<le> s_item_id st'"
    by blast
  show ?case
    by (rule exI[of _ "it # its"], rule exI[of _ "bs1 @ bs"]) (use a b in auto)
qed

lemma gen_day_Inr:
  assumes "gen_day sellers buyers d st = Inr st'"
  shows "\<exists>n g. gen_items n sellers buyers d (get_category_distribution d) (st\<lparr>s_rng := g\<rparr>)
           = Inr st'"
  using assms unfolding gen_day_def
  by (auto simp: bindE_Inr_iff Let_def split: prod.splits)

lemma gen_days_range:
  assumes "gen_days dates sellers buyers st = Inr st'"
  shows "\<exists>its bs. s_items st' = s_items st @ its \<and> s_bids st' = s_bids st @ bs
           \<and> (\<forall>b\<in>set bs. s_item_id st \<le> b_item_id b \<and> b_item_id b < s_item_id st')
           \<and> (\<forall>it\<in>set its. s_item_id st \<le> i_unique_id it \<and> i_unique_id it < s_item_id st')
           \<and> s_item_id st \<le> s_item_id st'"
  using assms
proof (induction dates arbitrary: st)
  case Nil
  then show ?case by simp
next
  case (Cons d rest)
  then obtain st1 where s1: "gen_day sellers buyers d st = Inr st1"
    and r: "gen_days rest sellers buyers st1 = Inr st'"
    by (auto simp: bindE_Inr_iff)
  from gen_day_Inr[OF s1] obtain n g where
    g: "gen_items n sellers buyers d (get_category_distribution d) (st\<lparr>s_rng := g\<rparr>) = Inr st1"
    by blast
  from gen_items_range[OF g] obtain its1 bs1 where
    a: "s_items st1 = s_items st @ its1" "s_bids st1 = s_bids st @ bs1"
       "\<forall>b\<in>set bs1. s_item_id st \<le> b_item_id b \<and> b_item_id b < s_item_id st1"
       "\<forall>it\<in>set its1. s_item_id st \<le> i_unique_id it \<and> i_unique_id it < s_item_id st1"
       "s_item_id st \<le> s_item_id st1"
    by auto
  from Cons.IH[OF r] obtain its bs where
    b: "s_items st' = s_items st1 @ its" "s_bids st' = s_bids st1 @ bs"
       "\<forall>b\<in>set bs. s_item_id st1 \<le> b_item_id b \<and> b_item_id b < s_item_id st'"
       "\<forall>it\<in>set its. s_item_id st1 \<le> i_unique_id it \<and> i_unique_id it < s_item_id st'"
       "s_item_id st1 \<le> s_item_id st'"
    by blast
  show ?case
    by (rule exI[of _ "its1 @ its"], rule exI[of _ "bs1 @ bs"]) (use a b in fastforce)
qed

lemma gen_days_lift:
  assumes step: "\<And>d cd st st'. gen_item sellers buyers d cd st = Inr st' \<Longrightarrow>
        \<exists>it bs. s_items st' = s_items st @ [it] \<and> s_bids st' = s_bids st @ bs
          \<and> s_item_id st' = s_item_id st + 1 \<and> i_unique_id it = s_item_id st
          \<and> (\<forall>b\<in>set bs. b_item_id b = s_item_id st) \<and> Q it bs"
    and run: "gen_days dates sellers buyers st = Inr st'"
    and fresh: "\<forall>b\<in>set (s_bids st). b_item_id b < s_item_id st"
    and new: "it \<in> set (drop (length (s_items st)) (s_items st'))"
  shows "Q it (filter (\<lambda>b. b_item_id b = i_unique_id it) (s_bids st'))"
  using run fresh new
proof (induction dates arbitrary: st)
  case Nil
  then show ?case by simp
next
  case (Cons d rest)
  then obtain st1 where s1: "gen_day sellers buyers d st = Inr st1"
    and r: "gen_days rest sellers buyers st1 = Inr st'"
    by (auto simp: bindE_Inr_iff)
  from gen_day_Inr[OF s1] obtain n g where
    g: "gen_items n sellers buyers d (get_category_distribution d) (st\<lparr>s_rng := g\<rparr>) = Inr st1"
    by blast
  let ?st0 = "st\<lparr>s_rng := g\<rparr>"
  from gen_items_range[OF g] obtain its1 bs1 where
    a: "s_items st1 = s_items st @ its1" "s_bids st1 = s_bids st @ bs1"
       "\<forall>b\<in>set bs1. s_item_id st \<le> b_item_id b \<and> b_item_id b < s_item_id st1"
       "\<forall>it\<in>set its1. s_item_id st \<le> i_unique_id it \<and> i_unique_id it < s_item_id st1"
       "s_item_id st \<le> s_item_id st1"
    by auto
  from gen_days_range[OF r] obtain its bs where
    b: "s_items st' = s_items st1 @ its" "s_bids st' = s_bids st1 @ bs"
       "\<forall>b\<in>set bs. s_item_id st1 \<le> b_item_id b \<and> b_item_id b < s_item_id st'"
    by blast
  have fresh0: "\<forall>b\<in>set (s_bids ?st0). b_item_id b < s_item_id ?st0"
    using Cons.prems(2) by simp
  have fresh1: "\<forall>b\<in>set (s_bids st1). b_item_id b < s_item_id st1"
    using Cons.prems(2) a by fastforce
  have new': "it \<in> set (its1 @ its)" using Cons.prems(3) a b by simp
  show ?case
  proof (cases "it \<in> set (drop (length (s_items st1)) (s_items st'))")
    case True
    from Cons.IH[OF r fresh1 True] show ?thesis .
  next
    case False
    then have "it \<notin> set its" using b by simp
    then have it1: "it \<in> set its1" using new' by simp
    then have new0: "it \<in> set (drop (length (s_items ?st0)) (s_items st1))"
      using a by simp
    have q: "Q it (filter (\<lambda>b. b_item_id b = i_unique_id it) (s_bids st1))"
      by (rule gen_items_lift[of sellers buyers d "get_category_distribution d" Q,
            OF step g fresh0 new0])
    have "i_unique_id it < s_item_id st1" using a(4) it1 by simp
    then have "filter (\<lambda>b. b_item_id b = i_unique_id it) bs = []"
      using b(3) by (auto simp: filter_empty_conv)
    then show ?thesis using q by (simp add: b)
  qed
qed

lemma generate_items_bids_fees_lift:
  assumes step: "\<And>sellers buyers d cd st st'. gen_item sellers buyers d cd st = Inr st' \<Longrightarrow>
        \<exists>it bs. s_items st' = s_items st @ [it] \<and> s_bids st' = s_bids st @ bs
          \<and> s_item_id st' = s_item_id st + 1 \<and> i_unique_id it = s_item_id st
          \<and> (\<forall>b\<in>set bs. b_item_id b = s_item_id st) \<and> Q it bs"
    and run: "generate_items_bids_fees customers g = Inr ((items, bids, fees), g')"
    and it: "it \<in> set items"
  shows "Q it (filter (\<lambda>b. b_item_id b = i_unique_id it) bids)"
proof -
  let ?sellers = "filter (\<lambda>c. c_customer_type c \<in> set [''seller'', ''both'']) customers"
  let ?buyers = "filter (\<lambda>c. c_customer_type c \<in> set [''buyer'', ''both'']) customers"
  let ?st0 = "\<lparr>s_items = [], s_bids = [], s_fees = [], s_item_id = 1, s_bid_id = 1,
                 s_fee_id = 1, s_items_by_state = (\<lambda>s. 0), s_rng = g\<rparr>"
  from run obtain st where r: "gen_days generate_auction_dates ?sellers ?buyers ?st0 = Inr st"
    and o: "items = s_items st" "bids = s_bids st"
    unfolding generate_items_bids_fees_def Let_def by (auto simp: bindE_Inr_iff)
  have fresh: "\<forall>b\<in>set (s_bids ?st0). b_item_id b < s_item_id ?st0" by simp
  have new: "it \<in> set (drop (length (s_items ?st0)) (s_items st))" using it o by simp
  from gen_days_lift[of ?sellers ?buyers Q, OF step r fresh new]
  show ?thesis by (simp add: o)
qed

text \<open>
  The four properties of an item and its bids hold for every item of the output of
  \<open>generate_items_bids_fees\<close>, whatever the customers and the random source.
\<close>

lemma generated_item_winning_bid:
  assumes "generate_items_bids_fees customers g = Inr ((items, bids, fees), g')"
    and "it \<in> set items"
  shows "let bs = filter (\<lambda>b. b_item_id b = i_unique_id it) bids
         in int (length bs) = i_num_bids it
            \<and> length (filter (\<lambda>b. b_is_winning_bid b = 1) bs) = 1
            \<and> (\<forall>b\<in>set bs. b_is_winning_bid b = 1 \<longrightarrow>
                  b_bid_amount b = i_hammer it \<and> b_bidder_id b = i_buyer_id it)"
proof -
  let ?Q = "\<lambda>it bs. int (length bs) = i_num_bids it
            \<and> length (filter (\<lambda>b. b_is_winning_bid b = 1) bs) = 1
            \<and> (\<forall>b\<in>set bs. b_is_winning_bid b = 1 \<longrightarrow>
                  b_bid_amount b = i_hammer it \<and> b_bidder_id b = i_buyer_id it)"
  from generate_items_bids_fees_lift[of ?Q, OF gen_item_winning_bid assms]
  show ?thesis by (simp add: Let_def)
qed

lemma generated_item_bid_amounts:
  assumes "generate_items_bids_fees customers g = Inr ((items, bids, fees), g')"
    and "it \<in> set items"
  shows "let bs = filter (\<lambda>b. b_item_id b = i_unique_id it) bids
         in sorted_wrt (<) (map b_bid_amount (butlast bs))
            \<and> (\<forall>b\<in>set (butlast bs). i_starting_bid it < b_bid_amount b)
            \<and> bs \<noteq> [] \<and> b_bid_amount (last bs) = i_hammer it"
proof -
  let ?Q = "\<lambda>it bs. sorted_wrt (<) (map b_bid_amount (butlast bs))
            \<and> (\<forall>b\<in>set (butlast bs). i_starting_bid it < b_bid_amount b)
            \<and> bs \<noteq> [] \<and> b_bid_amount (last bs) = i_hammer it"
  from generate_items_bids_fees_lift[of ?Q, OF gen_item_bid_amounts assms]
  show ?thesis by (simp add: Let_def)
qed

lemma generated_item_first_bid:
  assumes "generate_items_bids_fees customers g = Inr ((items, bids, fees), g')"
    and "it \<in> set items"
  shows "let bs = filter (\<lambda>b. b_item_id b = i_unique_id it) bids
         in (2 \<le> i_num_bids it \<longrightarrow>
               i_starting_bid it + 100 \<le> b_bid_amount (hd bs)
               \<and> b_bid_amount (hd bs) \<le> i_starting_bid it + 1000)
            \<and> (\<forall>b\<in>set bs. b_is_winning_bid b \<noteq> 1 \<longrightarrow> i_starting_bid it < b_bid_amount b)
            \<and> (i_num_bids it = 1 \<longrightarrow>
                 map b_bid_amount bs = [i_hammer it] \<and> i_hammer it \<noteq> i_starting_bid it)"
proof -
  let ?Q = "\<lambda>it bs. (2 \<le> i_num_bids it \<longrightarrow>
               i_starting_bid it + 100 \<le> b_bid_amount (hd bs)
               \<and> b_bid_amount (hd bs) \<le> i_starting_bid it + 1000)
            \<and> (\<forall>b\<in>set bs. b_is_winning_bid b \<noteq> 1 \<longrightarrow> i_starting_bid it < b_bid_amount b)
            \<and> (i_num_bids it = 1 \<longrightarrow>
                 map b_bid_amount bs = [i_hammer it] \<and> i_hammer it \<noteq> i_starting_bid it)"
  from generate_items_bids_fees_lift[of ?Q, OF gen_item_first_bid assms]
  show ?thesis by (simp add: Let_def)
qed

lemma generated_item_premium:
  assumes "generate_items_bids_fees customers g = Inr ((items, bids, fees), g')"
    and "it \<in> set items"
  shows "i_buyers_premium it = i_hammer it div 10
         \<and> i_contract_price it = i_hammer it + i_buyers_premium it
         \<and> i_reserve_met it = (if i_hammer it \<ge> i_reserve_price it then 1 else 0)"
proof -
  let ?Q = "\<lambda>it (bs :: bid list). i_buyers_premium it = i_hammer it div 10
         \<and> i_contract_price it = i_hammer it + i_buyers_premium it
         \<and> i_reserve_met it = (if i_hammer it \<ge> i_reserve_price it then 1 else 0)"
  have step: "\<exists>it bs. s_items sb = s_items sa @ [it] \<and> s_bids sb = s_bids sa @ bs
          \<and> s_item_id sb = s_item_id sa + 1 \<and> i_unique_id it = s_item_id sa
          \<and> (\<forall>b\<in>set bs. b_item_id b = s_item_id sa) \<and> ?Q it bs"
    if "gen_item sellers buyers d cd sa = Inr sb" for sellers buyers d cd sa sb
  proof -
    from gen_item_bids[OF that] obtain it bs where
      a: "s_items sb = s_items sa @ [it]" "s_bids sb = s_bids sa @ bs"
         "s_item_id sb = s_item_id sa + 1" "i_unique_id it = s_item_id sa"
         "\<forall>b\<in>set bs. b_item_id b = s_item_id sa"
      and p: "i_buyers_premium it = int_of_float (fmul (float_of_int (i_hammer it)) lit_0_10)"
        "i_contract_price it = i_hammer it + i_buyers_premium it"
        "i_reserve_met it = (if i_hammer it \<ge> i_reserve_price it then 1 else 0)"
        "2000 \<le> i_hammer it" "i_hammer it \<le> 50000"
      by blast
    have "int_of_float (fmul (float_of_int (i_hammer it)) lit_0_10) = i_hammer it div 10"
      using p(4,5) by (intro int_tenth_trunc) simp_all
    then have "?Q it bs" using p by simp
    then show ?thesis
      by (intro exI[of _ it] exI[of _ bs]) (use a in blast)
  qed
  from generate_items_bids_fees_lift[of ?Q, OF step assms]
  show ?thesis by simp
qed

section \<open>The state sampler in a run\<close>

text \<open>
  In a run: every item's state is drawn by \<open>pick_state\<close> from the counts in force, the
  counts stay non-negative, and while some state has quota left no state's count
  passes its target.
\<close>

lemma gen_item_state:
  assumes "gen_item sellers buyers d cd st = Inr st'"
  shows "\<exists>it state ga gb. s_items st' = s_items st @ [it] \<and> i_location_state it = state
      \<and> pick_state (s_items_by_state st) ga = Inr (state, gb)
      \<and> s_items_by_state st'
          = (s_items_by_state st)(state := s_items_by_state st state + 1)"
  using assms unfolding gen_item_def
  apply (simp add: bindE_Inr_iff Let_def split: prod.splits)
  apply (elim exE conjE)
  apply hypsubst
  apply simp
  apply blast
  done

lemma gen_item_counts_nonneg:
  assumes "gen_item sellers buyers d cd st = Inr st'"
    and "\<forall>s. 0 \<le> s_items_by_state st s"
  shows "\<forall>s. 0 \<le> s_items_by_state st' s"
proof -
  from gen_item_state[OF assms(1)] obtain state where
    "s_items_by_state st' = (s_items_by_state st)(state := s_items_by_state st state + 1)"
    by blast
  then show ?thesis using assms(2) by (auto simp: fun_upd_def intro: add_nonneg_nonneg)
qed

lemma gen_items_counts_nonneg:
  assumes "gen_items n sellers buyers d cd st = Inr st'"
    and "\<forall>s. 0 \<le> s_items_by_state st s"
  shows "\<forall>s. 0 \<le> s_items_by_state st' s"
  using assms
proof (induction n arbitrary: st)
  case 0
  then show ?case by simp
next
  case (Suc n)
  then obtain st1 where s1: "gen_item sellers buyers d cd st = Inr st1"
    and r: "gen_items n sellers buyers d cd st1 = Inr st'"
    by (auto simp: bindE_Inr_iff)
  from Suc.IH[OF r gen_item_counts_nonneg[OF s1 Suc.prems(2)]] show ?case .
qed

lemma gen_item_within_quota:
  assumes g: "gen_item sellers buyers d cd st = Inr st'"
    and nn: "\<forall>s. 0 \<le> s_items_by_state st s"
    and le: "\<forall>(s, target)\<in>set STATE_DISTRIBUTION. s_items_by_state st s \<le> target"
    and q: "\<exists>(s, target)\<in>set STATE_DISTRIBUTION. s_items_by_state st s < target"
  shows "\<forall>(s, target)\<in>set STATE_DISTRIBUTION. s_items_by_state st' s \<le> target"
proof -
  from gen_item_state[OF g] obtain state ga gb where
    p: "pick_state (s_items_by_state st) ga = Inr (state, gb)"
    and u: "s_items_by_state st'
          = (s_items_by_state st)(state := s_items_by_state st state + 1)"
    by blast
  from pick_state_in_quota[OF nn q p] obtain target where
    t: "map_of STATE_DISTRIBUTION state = Some target" "s_items_by_state st state < target"
    by blast
  have d: "distinct (map fst STATE_DISTRIBUTION)" by (simp add: STATE_DISTRIBUTION_def)
  show ?thesis
  proof (intro ballI, clarify)
    fix s tg assume m: "(s, tg) \<in> set STATE_DISTRIBUTION"
    show "s_items_by_state st' s \<le> tg"
    proof (cases "s = state")
      case True
      have "map_of STATE_DISTRIBUTION s = Some tg" using d m by (rule map_of_is_SomeI)
      then have "tg = target" using t(1) True by simp
      then show ?thesis using t(2) True by (simp add: u)
    next
      case False
      then show ?thesis using le m by (auto simp: u)
    qed
  qed
qed

section \<open>The draws of the optional fees\<close>

text \<open>
  The draws on which each profile includes the Power Washing fee, out of the
  \<open>2 ^ 53\<close> equally likely values \<open>k / 2 ^ 53\<close> of \<open>random()\<close>: the CSV profile on
  those below the double 0.6, the database profile on those above it.
\<close>

lemma unit_draw_0_6:
  "fless (Dy k 53) lit_0_6 \<longleftrightarrow> k < 5404319552844595"
  "fless lit_0_6 (Dy k 53) \<longleftrightarrow> 5404319552844595 < k"
  by (simp_all add: lit_0_6_def)

lemma power_washing_draws:
  "card {k. 0 \<le> k \<and> k < 2 ^ 53 \<and> fless (Dy k 53) lit_0_6} = 5404319552844595"
  "card {k. 0 \<le> k \<and> k < 2 ^ 53 \<and> fless lit_0_6 (Dy k 53)} = 3602879701896396"
proof -
  have "{k. 0 \<le> k \<and> k < 2 ^ 53 \<and> fless (Dy k 53) lit_0_6} = {0..<5404319552844595}"
    by (auto simp: unit_draw_0_6)
  then show "card {k. 0 \<le> k \<and> k < 2 ^ 53 \<and> fless (Dy k 53) lit_0_6} = 5404319552844595"
    by simp
  have "{k. 0 \<le> k \<and> k < 2 ^ 53 \<and> fless lit_0_6 (Dy k 53)}
          = {5404319552844595<..<9007199254740992}"
    by (auto simp: unit_draw_0_6)
  then show "card {k. 0 \<le> k \<and> k < 2 ^ 53 \<and> fless lit_0_6 (Dy k 53)} = 3602879701896396"
    by simp
qed

lemma gen_fees_types:
  "(case gen_fees item_id fee_id g of Inl e \<Rightarrow> [] | Inr (fs, r) \<Rightarrow> map f_fee_type fs)
     = [''Seller Service Fee'', ''Lot Fee'']
       @ (if fless (fst (random_unit g)) lit_0_6 then [''Power Washing''] else [])
       @ (if fless (fst (random_unit (snd (random_unit g)))) lit_0_20
          then [''Decal Removal''] else [])"
  by (simp add: gen_fees_def bindE_def lookup_def FEE_TYPES_def Let_def split: prod.splits)

lemma generate_fees_power_washing:
  "m_power_washing (fst (generate_fees hammer_price g)) \<noteq> 0
     \<longleftrightarrow> fless lit_0_6 (fst (random_unit g))"
  by (simp add: generate_fees_def Let_def split: prod.splits)

end
